theory Spec2Isabelle
  imports Complex_Main
begin

section \<open>Errors and tensors\<close>

text \<open>
  The source is Python over PyTorch tensors.  Real numbers stand for the floating-point
  entries; every place where the source raises is a branch of the model returning
  \<open>Inl\<close>.  \<open>IndexError\<close> is what indexing past a dimension, reducing an empty
  dimension and \<open>argmax\<close> of an empty tensor raise; \<open>RuntimeError\<close> is what a shape
  mismatch in \<open>torch.cat\<close>, \<open>view\<close> or broadcasting raises.
\<close>

datatype error = IndexError | RuntimeError

definition bindE :: "error + 'a \<Rightarrow> ('a \<Rightarrow> error + 'b) \<Rightarrow> error + 'b" where
  "bindE m f = (case m of Inl e \<Rightarrow> Inl e | Inr v \<Rightarrow> f v)"

text \<open>Evaluating a list of fallible computations from left to right; the first error wins.\<close>

fun sequenceE :: "(error + 'a) list \<Rightarrow> error + 'a list" where
  "sequenceE [] = Inr []"
| "sequenceE (m # ms) =
     (case m of Inl e \<Rightarrow> Inl e
      | Inr v \<Rightarrow> (case sequenceE ms of Inl e \<Rightarrow> Inl e | Inr vs \<Rightarrow> Inr (v # vs)))"

section \<open>Geometry\<close>

text \<open>
  A box is the trailing dimension of a tensor: a list of reals.  \<open>box[..., k]\<close> raises
  IndexError when the trailing dimension has fewer than \<open>k + 1\<close> entries.
\<close>

definition xywh_to_xyxy :: "real list \<Rightarrow> error + real list" where
  "xywh_to_xyxy box =
     (if length box < 4 then Inl IndexError
      else
        let x = box ! 0; y = box ! 1; w = box ! 2; h = box ! 3;
            x1 = x - w / 2;
            y1 = y - h / 2;
            x2 = x + w / 2;
            y2 = y + h / 2
        in Inr [x1, y1, x2, y2])"

text \<open>\<open>(v).clamp(min=0)\<close>\<close>

definition clamp_min0 :: "real \<Rightarrow> real" where
  "clamp_min0 v = max v 0"

text \<open>
  \<open>bbox_iou(box1, box2, eps)\<close> for one pair of boxes.  The test that guards the
  conversion is the source's: the length of the trailing dimension equals 4.
\<close>

definition bbox_iou :: "real list \<Rightarrow> real list \<Rightarrow> real \<Rightarrow> error + real" where
  "bbox_iou box1 box2 eps =
     bindE (if length box1 = 4 then xywh_to_xyxy box1 else Inr box1) (\<lambda>b1.
     bindE (if length box2 = 4 then xywh_to_xyxy box2 else Inr box2) (\<lambda>b2.
       if length b1 < 4 \<or> length b2 < 4 then Inl IndexError
       else
         let x1 = max (b1 ! 0) (b2 ! 0);
             y1 = max (b1 ! 1) (b2 ! 1);
             x2 = min (b1 ! 2) (b2 ! 2);
             y2 = min (b1 ! 3) (b2 ! 3);
             inter_w = clamp_min0 (x2 - x1);
             inter_h = clamp_min0 (y2 - y1);
             inter = inter_w * inter_h;
             area1 = clamp_min0 (b1 ! 2 - b1 ! 0) * clamp_min0 (b1 ! 3 - b1 ! 1);
             area2 = clamp_min0 (b2 ! 2 - b2 ! 0) * clamp_min0 (b2 ! 3 - b2 ! 1);
             union = area1 + area2 - inter + eps
         in Inr (inter / union)))"

text \<open>The default \<open>eps=1e-7\<close> of \<open>bbox_iou\<close>.\<close>

definition eps_default :: real where
  "eps_default = 1 / 10000000"

text \<open>
  The intersection-over-union of the specification for two boxes declared to be in corner
  form \<open>[x1, y1, x2, y2]\<close>: no conversion, intersection
  \<open>max(0, min(x2) - max(x1)) * max(0, min(y2) - max(y1))\<close>, union
  \<open>area(A) + area(B) - intersection + eps\<close>.  It is what the docstring of \<open>bbox_iou\<close>
  promises for corner-form arguments.
\<close>

definition spec_iou_corner :: "real list \<Rightarrow> real list \<Rightarrow> real \<Rightarrow> real" where
  "spec_iou_corner a b eps =
     (let inter = max 0 (min (a ! 2) (b ! 2) - max (a ! 0) (b ! 0))
                * max 0 (min (a ! 3) (b ! 3) - max (a ! 1) (b ! 1));
          area_a = (a ! 2 - a ! 0) * (a ! 3 - a ! 1);
          area_b = (b ! 2 - b ! 0) * (b ! 3 - b ! 1)
      in inter / (area_a + area_b - inter + eps))"

section \<open>Tensors\<close>

text \<open>
  A dense five-dimensional tensor \<open>(B, A, gh, gw, C)\<close>: its shape and its entries as a
  function of the five indices.  Only entries inside the shape are meaningful.
\<close>

record tensor5 =
  dimB :: nat
  dimA :: nat
  dimH :: nat
  dimW :: nat
  dimC :: nat
  elems :: "nat \<Rightarrow> nat \<Rightarrow> nat \<Rightarrow> nat \<Rightarrow> nat \<Rightarrow> real"

text \<open>\<open>torch.zeros((B, A, gh, gw, C))\<close>\<close>

definition zeros :: "nat \<Rightarrow> nat \<Rightarrow> nat \<Rightarrow> nat \<Rightarrow> nat \<Rightarrow> tensor5" where
  "zeros B A gh gw C =
     \<lparr>dimB = B, dimA = A, dimH = gh, dimW = gw, dimC = C, elems = (\<lambda>b a j i c. 0)\<rparr>"

text \<open>
  Python indexing of a dimension of size \<open>n\<close> with an integer: negative indices count
  from the end, anything outside \<open>[-n, n)\<close> raises IndexError (here \<open>None\<close>).
\<close>

definition py_index :: "nat \<Rightarrow> int \<Rightarrow> nat option" where
  "py_index n i =
     (if 0 \<le> i \<and> i < int n then Some (nat i)
      else if - int n \<le> i \<and> i < 0 then Some (nat (i + int n))
      else None)"

text \<open>The tensor with the entry at one position replaced.\<close>

definition tensor_upd :: "tensor5 \<Rightarrow> nat \<Rightarrow> nat \<Rightarrow> nat \<Rightarrow> nat \<Rightarrow> nat \<Rightarrow> real \<Rightarrow> tensor5" where
  "tensor_upd t b a j i c v =
     t\<lparr>elems := (\<lambda>b2 a2 j2 i2 c2.
           if b2 = b \<and> a2 = a \<and> j2 = j \<and> i2 = i \<and> c2 = c then v
           else elems t b2 a2 j2 i2 c2)\<rparr>"

text \<open>The assignment \<open>t[b, a, j, i, c] = v\<close>, each index checked against its dimension.\<close>

definition tensor_set :: "tensor5 \<Rightarrow> int \<Rightarrow> int \<Rightarrow> int \<Rightarrow> int \<Rightarrow> int \<Rightarrow> real \<Rightarrow> error + tensor5" where
  "tensor_set t b a j i c v =
     (case py_index (dimB t) b of None \<Rightarrow> Inl IndexError | Some b' \<Rightarrow>
      case py_index (dimA t) a of None \<Rightarrow> Inl IndexError | Some a' \<Rightarrow>
      case py_index (dimH t) j of None \<Rightarrow> Inl IndexError | Some j' \<Rightarrow>
      case py_index (dimW t) i of None \<Rightarrow> Inl IndexError | Some i' \<Rightarrow>
      case py_index (dimC t) c of None \<Rightarrow> Inl IndexError | Some c' \<Rightarrow>
        Inr (tensor_upd t b' a' j' i' c' v))"

text \<open>
  \<open>torch.max(v, dim)\<close> and \<open>torch.argmax(v)\<close> on one vector: the maximum and the index
  of its first occurrence; an empty vector raises (here \<open>None\<close>).
\<close>

fun torch_max :: "real list \<Rightarrow> (real \<times> nat) option" where
  "torch_max [] = None"
| "torch_max (x # xs) =
     (case torch_max xs of
        None \<Rightarrow> Some (x, 0)
      | Some (m, i) \<Rightarrow> if m \<le> x then Some (x, 0) else Some (m, Suc i))"

text \<open>\<open>int(v)\<close> of a float: truncation towards zero.\<close>

definition int_trunc :: "real \<Rightarrow> int" where
  "int_trunc r = (if 0 \<le> r then \<lfloor>r\<rfloor> else \<lceil>r\<rceil>)"

section \<open>Loss and target assignment\<close>

text \<open>The fields of \<open>YOLOLoss\<close> that \<open>forward\<close> reads, and one row of a label tensor.\<close>

record yolo_loss =
  anchors :: "(real \<times> real) list"
  num_classes :: nat
  lambda_box :: real
  lambda_obj :: real
  lambda_noobj :: real
  lambda_cls :: real

record gt_box =
  gt_cls :: real
  gt_x :: real
  gt_y :: real
  gt_w :: real
  gt_h :: real

text \<open>
  The anchor choice of one ground-truth box (the lines from \<open>box = ...\<close> to
  \<open>best_n = ...\<close>): the box keeps its offset within the cell as its centre, every anchor is
  a box centred at \<open>(0, 0)\<close>, and the first anchor of maximal \<open>bbox_iou\<close> wins.
  \<open>torch.cat\<close> of the \<open>(A, 2)\<close> zeros with the anchors raises unless there are \<open>A\<close>
  anchors; an empty anchor list is a tensor of shape \<open>(0,)\<close>, which \<open>torch.cat\<close> skips,
  and \<open>bbox_iou\<close> then indexes past the two columns left.
\<close>

definition best_anchor :: "(real \<times> real) list \<Rightarrow> nat \<Rightarrow> real list \<Rightarrow> error + nat" where
  "best_anchor ancs A box =
     (if ancs = [] then Inl IndexError
      else if length ancs \<noteq> A then Inl RuntimeError
      else
        let anchor_boxes = map (\<lambda>(aw, ah). [0, 0, aw, ah]) ancs;
            box_rep = replicate A box
        in bindE (sequenceE (map (\<lambda>(b1, b2). bbox_iou b1 b2 eps_default)
                                 (zip box_rep anchor_boxes))) (\<lambda>ious.
           case torch_max ious of
             None \<Rightarrow> Inl IndexError
           | Some (m, best_n) \<Rightarrow> Inr best_n))"

text \<open>The body of the loop over the ground-truth boxes of image \<open>b\<close>.\<close>

definition assign_gt :: "yolo_loss \<Rightarrow> nat \<Rightarrow> tensor5 \<Rightarrow> gt_box \<Rightarrow> error + tensor5" where
  "assign_gt L b t gt =
     (let gw = dimW t; gh = dimH t;
          gx = gt_x gt * real gw;
          gy = gt_y gt * real gh;
          gi = int_trunc gx;
          gj = int_trunc gy;
          gw_box = gt_w gt * real gw;
          gh_box = gt_h gt * real gh;
          box = [gx - real_of_int gi, gy - real_of_int gj, gw_box, gh_box]
      in bindE (best_anchor (anchors L) (dimA t) box) (\<lambda>best_n.
         bindE (tensor_set t (int b) (int best_n) gj gi 4 1) (\<lambda>t1.
         bindE (tensor_set t1 (int b) (int best_n) gj gi 0 (gx - real_of_int gi)) (\<lambda>t2.
         bindE (tensor_set t2 (int b) (int best_n) gj gi 1 (gy - real_of_int gj)) (\<lambda>t3.
         bindE (tensor_set t3 (int b) (int best_n) gj gi 2 gw_box) (\<lambda>t4.
         bindE (tensor_set t4 (int b) (int best_n) gj gi 3 gh_box) (\<lambda>t5.
         tensor_set t5 (int b) (int best_n) gj gi (5 + int_trunc (gt_cls gt)) 1)))))))"

text \<open>\<open>for gt in targets[b]\<close>\<close>

fun assign_image :: "yolo_loss \<Rightarrow> nat \<Rightarrow> tensor5 \<Rightarrow> gt_box list \<Rightarrow> error + tensor5" where
  "assign_image L b t [] = Inr t"
| "assign_image L b t (gt # gts) =
     (case assign_gt L b t gt of Inl e \<Rightarrow> Inl e | Inr t' \<Rightarrow> assign_image L b t' gts)"

text \<open>\<open>for b in range(B)\<close>; \<open>targets[b]\<close> raises IndexError past the end of the list.\<close>

fun assign_batch :: "yolo_loss \<Rightarrow> gt_box list list \<Rightarrow> nat list \<Rightarrow> tensor5 \<Rightarrow> error + tensor5" where
  "assign_batch L targets [] t = Inr t"
| "assign_batch L targets (b # bs) t =
     (if length targets \<le> b then Inl IndexError
      else case assign_image L b t (targets ! b) of
             Inl e \<Rightarrow> Inl e
           | Inr t' \<Rightarrow> assign_batch L targets bs t')"

text \<open>The first half of \<open>YOLOLoss.forward\<close>: the target tensor \<open>t\<close>.\<close>

definition forward_targets :: "yolo_loss \<Rightarrow> tensor5 \<Rightarrow> gt_box list list \<Rightarrow> error + tensor5" where
  "forward_targets L preds targets =
     assign_batch L targets [0..<dimB preds]
       (zeros (dimB preds) (dimA preds) (dimH preds) (dimW preds) (5 + num_classes L))"

text \<open>\<open>(f).sum()\<close> over the batch, anchor and grid dimensions.\<close>

definition sum_cells :: "nat \<Rightarrow> nat \<Rightarrow> nat \<Rightarrow> nat \<Rightarrow> (nat \<Rightarrow> nat \<Rightarrow> nat \<Rightarrow> nat \<Rightarrow> real) \<Rightarrow> real" where
  "sum_cells B A gh gw f =
     (\<Sum>b\<leftarrow>[0..<B]. \<Sum>a\<leftarrow>[0..<A]. \<Sum>j\<leftarrow>[0..<gh]. \<Sum>i\<leftarrow>[0..<gw]. f b a j i)"

text \<open>
  Broadcasting of two sizes of one dimension: equal sizes, or a size of 1 stretched to the
  other; anything else raises RuntimeError (here \<open>None\<close>).
\<close>

definition broadcast_dim :: "nat \<Rightarrow> nat \<Rightarrow> nat option" where
  "broadcast_dim m n =
     (if m = n then Some m else if m = 1 then Some n else if n = 1 then Some m else None)"

text \<open>
  The second half of \<open>YOLOLoss.forward\<close>: the four loss terms.  \<open>preds[..., 4]\<close> raises
  when the predictions have fewer than five channels; the class channels of predictions
  and targets are subtracted with broadcasting.
\<close>

definition forward_loss :: "yolo_loss \<Rightarrow> tensor5 \<Rightarrow> tensor5 \<Rightarrow> error + real" where
  "forward_loss L preds t =
     (if dimC preds < 5 then Inl IndexError
      else
        let B = dimB preds; A = dimA preds; gh = dimH preds; gw = dimW preds;
            p = elems preds; q = elems t;
            pc = dimC preds - 5; tc = dimC t - 5
        in case broadcast_dim pc tc of
             None \<Rightarrow> Inl RuntimeError
           | Some n \<Rightarrow>
               let loss_box = lambda_box L * sum_cells B A gh gw (\<lambda>b a j i.
                       q b a j i 4 * (((p b a j i 0 - q b a j i 0)\<^sup>2 + (p b a j i 1 - q b a j i 1)\<^sup>2)
                                     + ((p b a j i 2 - q b a j i 2)\<^sup>2 + (p b a j i 3 - q b a j i 3)\<^sup>2)));
                   loss_obj = lambda_obj L * sum_cells B A gh gw (\<lambda>b a j i.
                       q b a j i 4 * (p b a j i 4 - 1)\<^sup>2);
                   loss_noobj = lambda_noobj L * sum_cells B A gh gw (\<lambda>b a j i.
                       (1 - q b a j i 4) * (p b a j i 4)\<^sup>2);
                   loss_cls = lambda_cls L * sum_cells B A gh gw (\<lambda>b a j i.
                       \<Sum>k\<leftarrow>[0..<n]. q b a j i 4
                          * (p b a j i (5 + (if pc = 1 then 0 else k))
                             - q b a j i (5 + (if tc = 1 then 0 else k)))\<^sup>2)
               in Inr (loss_box + loss_obj + loss_noobj + loss_cls))"

text \<open>\<open>YOLOLoss.forward(preds, targets)\<close>\<close>

definition forward :: "yolo_loss \<Rightarrow> tensor5 \<Rightarrow> gt_box list list \<Rightarrow> error + real" where
  "forward L preds targets = bindE (forward_targets L preds targets) (forward_loss L preds)"

section \<open>Non-maximum suppression\<close>

text \<open>
  A candidate is one row of the three parallel tensors \<open>boxes\<close>, \<open>scores\<close> and
  \<open>classes\<close>; a kept candidate is one row \<open>[x1, y1, x2, y2, confidence, class]\<close> of the
  output.
\<close>

type_synonym candidate = "real list \<times> real \<times> nat"

text \<open>\<open>flat = pred.view(-1, nc)\<close> for image \<open>b\<close>: the rows in row-major order.\<close>

definition flat_rows :: "tensor5 \<Rightarrow> nat \<Rightarrow> real list list" where
  "flat_rows p b =
     concat (map (\<lambda>a. concat (map (\<lambda>j. map (\<lambda>i. map (elems p b a j i) [0..<dimC p])
                                              [0..<dimW p])
                                   [0..<dimH p]))
                 [0..<dimA p])"

text \<open>
  One row of \<open>boxes\<close>, \<open>scores = objness * class_conf\<close> and \<open>class_pred\<close>, the class being
  the first maximal class score.
\<close>

definition row_candidate :: "real list \<Rightarrow> error + candidate" where
  "row_candidate row =
     (if length row < 5 then Inl IndexError
      else case torch_max (drop 5 row) of
             None \<Rightarrow> Inl IndexError
           | Some (class_conf, class_pred) \<Rightarrow> Inr (take 4 row, row ! 4 * class_conf, class_pred))"

text \<open>
  The suppression loop.  \<open>keep\<close> grows by the head of the remaining candidates; the rest
  is compared with it by \<open>bbox_iou\<close> and only rows with \<open>ious < iou_threshold\<close> stay.
\<close>

function nms_loop :: "real \<Rightarrow> candidate list \<Rightarrow> candidate list \<Rightarrow> error + candidate list" where
  "nms_loop iou_threshold [] keep = Inr keep"
| "nms_loop iou_threshold (best # rest) keep =
     (if rest = [] then Inr (keep @ [best])
      else case sequenceE (map (\<lambda>c. bbox_iou (fst best) (fst c) eps_default) rest) of
             Inl e \<Rightarrow> Inl e
           | Inr ious \<Rightarrow>
               nms_loop iou_threshold
                 (map fst (filter (\<lambda>(c, iou). iou < iou_threshold) (zip rest ious)))
                 (keep @ [best]))"
  by pat_completeness auto
termination
proof (relation "measure (\<lambda>(thr, cs, keep). length cs)")
  show "wf (measure (\<lambda>(thr, cs, keep). length cs))" by simp
next
  fix iou_threshold :: real and best :: candidate and rest keep :: "candidate list"
    and ious :: "real list"
  have "length (filter (\<lambda>(c, iou). iou < iou_threshold) (zip rest ious)) \<le> length rest"
    by (rule le_trans [OF length_filter_le]) simp
  then show "((iou_threshold,
               map fst (filter (\<lambda>(c, iou). iou < iou_threshold) (zip rest ious)),
               keep @ [best]),
              (iou_threshold, best # rest, keep)) \<in> measure (\<lambda>(thr, cs, keep). length cs)"
    by simp
qed

text \<open>
  The body of the loop over the images: image \<open>b\<close> of the batch.  \<open>view(-1, nc)\<close> raises
  for \<open>nc = 0\<close>, \<open>flat[:, 4]\<close> for \<open>nc < 5\<close>, and \<open>torch.max\<close> over the class dimension for
  \<open>nc = 5\<close>.  The sort is by descending score; equal scores keep their order.
\<close>

definition nms_image :: "tensor5 \<Rightarrow> nat \<Rightarrow> real \<Rightarrow> real \<Rightarrow> error + candidate list" where
  "nms_image p b conf_threshold iou_threshold =
     (let nc = dimC p in
      if nc = 0 then Inl RuntimeError
      else if nc \<le> 5 then Inl IndexError
      else
        bindE (sequenceE (map row_candidate (flat_rows p b))) (\<lambda>cands.
          let masked = filter (\<lambda>(box, score, cls). score > conf_threshold) cands
          in if masked = [] then Inr []
             else
               bindE (sequenceE (map (\<lambda>(box, score, cls).
                          bindE (xywh_to_xyxy box) (\<lambda>box_xyxy. Inr (box_xyxy, score, cls)))
                        masked)) (\<lambda>converted.
                 nms_loop iou_threshold
                   (sort_key (\<lambda>(box, score, cls). - score) converted) [])))"

text \<open>\<open>non_max_suppression(prediction, conf_threshold, iou_threshold)\<close>\<close>

definition non_max_suppression :: "tensor5 \<Rightarrow> real \<Rightarrow> real \<Rightarrow> error + candidate list list" where
  "non_max_suppression prediction conf_threshold iou_threshold =
     sequenceE (map (\<lambda>b. nms_image prediction b conf_threshold iou_threshold)
                    [0..<dimB prediction])"

text \<open>Column 4 of a row of the output: the confidence \<open>objness * class_conf\<close>.\<close>

definition confidence :: "candidate \<Rightarrow> real" where
  "confidence c = fst (snd c)"

text \<open>\<open>boxes_xyxy = xywh_to_xyxy(boxes)\<close> on one row, the score and class carried along.\<close>

definition convert_candidate :: "candidate \<Rightarrow> error + candidate" where
  "convert_candidate = (\<lambda>(box, score, cls).
      bindE (xywh_to_xyxy box) (\<lambda>box_xyxy. Inr (box_xyxy, score, cls)))"

section \<open>Concrete inputs\<close>

text \<open>
  One image, one anchor, a 1 by 2 grid, one class.  The two cells predict the centre-form
  boxes \<open>(0.5, 0.5, 1, 1)\<close> and \<open>(0.6, 0.6, 0.8, 0.8)\<close>, that is the corner-form boxes
  \<open>(0, 0, 1, 1)\<close> and \<open>(0.2, 0.2, 1, 1)\<close>, with scores 0.9 and 0.8.
\<close>

definition pred_two_boxes :: tensor5 where
  "pred_two_boxes =
     \<lparr>dimB = 1, dimA = 1, dimH = 1, dimW = 2, dimC = 6,
      elems = (\<lambda>b a j i c. if i = 0 then [1/2, 1/2, 1, 1, 9/10, 1] ! c
                             else [3/5, 3/5, 4/5, 4/5, 4/5, 1] ! c)\<rparr>"

text \<open>
  One image, one anchor, one cell, one class, with a raw objectness of 2: the network's
  head is a plain convolution, and nothing between it and the decoder bounds its output.
\<close>

definition pred_raw_score :: tensor5 where
  "pred_raw_score =
     \<lparr>dimB = 1, dimA = 1, dimH = 1, dimW = 1, dimC = 6,
      elems = (\<lambda>b a j i c. [1/2, 1/2, 1, 1, 2, 1] ! c)\<rparr>"

text \<open>
  The scenario of the specification: anchors \<open>[(1,1), (2,2), (3,3)]\<close>, a 13 by 13 grid,
  one ground-truth box with centre \<open>(0.5, 0.5)\<close>, size \<open>(0.1, 0.1)\<close> and class 2.  The
  loss weights are the defaults of \<open>YOLOLoss\<close>; three classes make class 2 valid.
\<close>

definition loss_scenario :: yolo_loss where
  "loss_scenario =
     \<lparr>anchors = [(1, 1), (2, 2), (3, 3)], num_classes = 3,
      lambda_box = 5, lambda_obj = 1, lambda_noobj = 1/2, lambda_cls = 1\<rparr>"

definition gt_scenario :: gt_box where
  "gt_scenario = \<lparr>gt_cls = 2, gt_x = 1/2, gt_y = 1/2, gt_w = 1/10, gt_h = 1/10\<rparr>"

text \<open>The same box with its centre on the right edge of the image, \<open>x = 1.0\<close>.\<close>

definition gt_edge :: gt_box where
  "gt_edge = \<lparr>gt_cls = 2, gt_x = 1, gt_y = 1/2, gt_w = 1/10, gt_h = 1/10\<rparr>"

text \<open>
  A prediction tensor of the scenario's shape \<open>(1, 3, 13, 13, 8)\<close> whose entries are those
  of the target tensor that the scenario's box produces.
\<close>

definition preds_scenario :: tensor5 where
  "preds_scenario =
     \<lparr>dimB = 1, dimA = 3, dimH = 13, dimW = 13, dimC = 8,
      elems = (\<lambda>b a j i c. if b = 0 \<and> a = 1 \<and> j = 6 \<and> i = 6
                             then [1/2, 1/2, 13/10, 13/10, 1, 0, 0, 1] ! c else 0)\<rparr>"

text \<open>Reading \<open>t[b, a, j, i, c]\<close> from the tensor a call returned.\<close>

definition target_at :: "error + tensor5 \<Rightarrow> nat \<Rightarrow> nat \<Rightarrow> nat \<Rightarrow> nat \<Rightarrow> nat \<Rightarrow> error + real" where
  "target_at r b a j i c = bindE r (\<lambda>t. Inr (elems t b a j i c))"

section \<open>Predicates for the proofs\<close>

text \<open>The objectness channel (index 4) holds only the values 0 and 1.\<close>

definition obj_binary :: "tensor5 \<Rightarrow> bool" where
  "obj_binary t \<longleftrightarrow> (\<forall>b a j i. elems t b a j i 4 = 0 \<or> elems t b a j i 4 = 1)"

text \<open>Two tensors of the same shape.\<close>

definition same_shape :: "tensor5 \<Rightarrow> tensor5 \<Rightarrow> bool" where
  "same_shape t t' \<longleftrightarrow> dimB t' = dimB t \<and> dimA t' = dimA t \<and> dimH t' = dimH t
      \<and> dimW t' = dimW t \<and> dimC t' = dimC t"

section \<open>Facts about the geometry\<close>

lemma length4_cases:
  assumes "length (xs :: 'a list) = 4"
  obtains a b c d where "xs = [a, b, c, d]"
proof -
  from assms obtain a ys where 1: "xs = a # ys" "length ys = 3"
    by (cases xs) auto
  then obtain b zs where 2: "ys = b # zs" "length zs = 2"
    by (cases ys) auto
  then obtain c ws where 3: "zs = c # ws" "length ws = 1"
    by (cases zs) auto
  then obtain d where 4: "ws = [d]"
    by (cases ws) auto
  from 1 2 3 4 have "xs = [a, b, c, d]" by simp
  then show thesis by (rule that)
qed

lemma bbox_iou_boxes:
  "bbox_iou [cx1, cy1, w1, h1] [cx2, cy2, w2, h2] eps =
     Inr (clamp_min0 (min (cx1 + w1 / 2) (cx2 + w2 / 2) - max (cx1 - w1 / 2) (cx2 - w2 / 2))
          * clamp_min0 (min (cy1 + h1 / 2) (cy2 + h2 / 2) - max (cy1 - h1 / 2) (cy2 - h2 / 2))
          / (clamp_min0 w1 * clamp_min0 h1 + clamp_min0 w2 * clamp_min0 h2
             - clamp_min0 (min (cx1 + w1 / 2) (cx2 + w2 / 2) - max (cx1 - w1 / 2) (cx2 - w2 / 2))
               * clamp_min0 (min (cy1 + h1 / 2) (cy2 + h2 / 2) - max (cy1 - h1 / 2) (cy2 - h2 / 2))
             + eps))"
  by (simp add: bbox_iou_def xywh_to_xyxy_def bindE_def Let_def)

lemma clamp_min0_nonneg: "0 \<le> clamp_min0 v"
  by (simp add: clamp_min0_def)

lemma inter_w_le_fst:
  "clamp_min0 (min (c1 + w1 / 2) (c2 + w2 / 2) - max (c1 - w1 / 2) (c2 - w2 / 2)) \<le> clamp_min0 w1"
  by (simp add: clamp_min0_def max_def min_def)

lemma inter_w_le_snd:
  "clamp_min0 (min (c1 + w1 / 2) (c2 + w2 / 2) - max (c1 - w1 / 2) (c2 - w2 / 2)) \<le> clamp_min0 w2"
  by (simp add: clamp_min0_def max_def min_def)

lemma iou_fraction_bounds:
  fixes iw ih a1 b1 a2 b2 eps :: real
  assumes "0 \<le> iw" "0 \<le> ih" "iw \<le> a1" "ih \<le> b1" "iw \<le> a2" "ih \<le> b2" "0 < eps"
  shows "eps \<le> a1 * b1 + a2 * b2 - iw * ih + eps"
    and "0 \<le> iw * ih / (a1 * b1 + a2 * b2 - iw * ih + eps)"
    and "iw * ih / (a1 * b1 + a2 * b2 - iw * ih + eps) < 1"
proof -
  have i1: "iw * ih \<le> a1 * b1" using assms by (intro mult_mono) auto
  have i2: "iw * ih \<le> a2 * b2" using assms by (intro mult_mono) auto
  have i0: "0 \<le> iw * ih" using assms by simp
  show u: "eps \<le> a1 * b1 + a2 * b2 - iw * ih + eps" using i1 i2 i0 by linarith
  then have pos: "0 < a1 * b1 + a2 * b2 - iw * ih + eps" using assms(7) by linarith
  show "0 \<le> iw * ih / (a1 * b1 + a2 * b2 - iw * ih + eps)"
    using i0 pos by simp
  have "iw * ih < a1 * b1 + a2 * b2 - iw * ih + eps" using i1 i2 assms(7) by linarith
  then show "iw * ih / (a1 * b1 + a2 * b2 - iw * ih + eps) < 1"
    using pos by simp
qed

text \<open>Boxes with four entries never make \<open>bbox_iou\<close> raise.\<close>

lemma bbox_iou_total:
  assumes "length a = 4" and "length b = 4"
  shows "\<exists>v. bbox_iou a b eps = Inr v"
proof -
  from assms(1) obtain cx1 cy1 w1 h1 where a: "a = [cx1, cy1, w1, h1]" by (rule length4_cases)
  from assms(2) obtain cx2 cy2 w2 h2 where b: "b = [cx2, cy2, w2, h2]" by (rule length4_cases)
  show ?thesis unfolding a b by (simp add: bbox_iou_boxes)
qed

text \<open>
  The order of the two arguments is immaterial, whatever their length: the conversion
  test, the index checks, \<open>max\<close>, \<open>min\<close> and the sum of the two areas are all symmetric.
\<close>

lemma bbox_iou_commute: "bbox_iou a b eps = bbox_iou b a eps"
  by (simp add: bbox_iou_def xywh_to_xyxy_def bindE_def Let_def
        max.commute min.commute add.commute disj_commute)

section \<open>Claims about the geometry\<close>

text \<open>
  Claim C7.  For all boxes A and B in centre form, the IoU of A with B equals the IoU of
  B with A.  (The equation holds for every pair of arguments and every epsilon, so also
  for the error results of malformed arguments.)
\<close>

theorem C7_bbox_iou_symmetric:
  "bbox_iou [cxa, cya, wa, ha] [cxb, cyb, wb, hb] eps
     = bbox_iou [cxb, cyb, wb, hb] [cxa, cya, wa, ha] eps
   \<and> (\<exists>v. bbox_iou [cxa, cya, wa, ha] [cxb, cyb, wb, hb] eps = Inr v)"
  by (simp add: bbox_iou_boxes max.commute min.commute add.commute)

text \<open>
  Claim C8.  For every pair of boxes (four numbers each, read as centre x, centre y, width,
  height, the reading \<open>bbox_iou\<close> applies to every four-entry box) and every positive
  epsilon, \<open>bbox_iou\<close> returns a value and does not raise; the denominator is at least
  epsilon, so the value lies in \<open>[0, 1)\<close>; and when one of the boxes has a width or a
  height that is zero (or negative, which the clamp turns into zero area), or when the two
  boxes do not overlap along the x axis or along the y axis, the value is exactly 0.
\<close>

theorem C8_bbox_iou_degenerate:
  assumes la: "length a = 4" and lb: "length b = 4" and eps: "0 < eps"
  shows "\<exists>v. bbox_iou a b eps = Inr v \<and> 0 \<le> v \<and> v < 1 \<and>
           ((a ! 2 \<le> 0 \<or> a ! 3 \<le> 0 \<or> b ! 2 \<le> 0 \<or> b ! 3 \<le> 0
             \<or> a ! 0 + a ! 2 / 2 \<le> b ! 0 - b ! 2 / 2
             \<or> b ! 0 + b ! 2 / 2 \<le> a ! 0 - a ! 2 / 2
             \<or> a ! 1 + a ! 3 / 2 \<le> b ! 1 - b ! 3 / 2
             \<or> b ! 1 + b ! 3 / 2 \<le> a ! 1 - a ! 3 / 2) \<longrightarrow> v = 0)"
proof -
  from la obtain cx1 cy1 w1 h1 where a: "a = [cx1, cy1, w1, h1]" by (rule length4_cases)
  from lb obtain cx2 cy2 w2 h2 where b: "b = [cx2, cy2, w2, h2]" by (rule length4_cases)
  define iw where
    "iw = clamp_min0 (min (cx1 + w1 / 2) (cx2 + w2 / 2) - max (cx1 - w1 / 2) (cx2 - w2 / 2))"
  define ih where
    "ih = clamp_min0 (min (cy1 + h1 / 2) (cy2 + h2 / 2) - max (cy1 - h1 / 2) (cy2 - h2 / 2))"
  define v where
    "v = iw * ih / (clamp_min0 w1 * clamp_min0 h1 + clamp_min0 w2 * clamp_min0 h2 - iw * ih + eps)"
  have r: "bbox_iou a b eps = Inr v"
    unfolding a b v_def iw_def ih_def by (rule bbox_iou_boxes)
  have iw0: "0 \<le> iw" and ih0: "0 \<le> ih"
    unfolding iw_def ih_def by (rule clamp_min0_nonneg)+
  have b1: "iw \<le> clamp_min0 w1" "iw \<le> clamp_min0 w2"
    unfolding iw_def by (rule inter_w_le_fst, rule inter_w_le_snd)
  have b2: "ih \<le> clamp_min0 h1" "ih \<le> clamp_min0 h2"
    unfolding ih_def by (rule inter_w_le_fst, rule inter_w_le_snd)
  have v0: "0 \<le> v" unfolding v_def
    using iw0 ih0 b1 b2 eps by (intro iou_fraction_bounds(2)) auto
  have v1: "v < 1" unfolding v_def
    using iw0 ih0 b1 b2 eps by (intro iou_fraction_bounds(3)) auto
  have z: "v = 0"
    if "w1 \<le> 0 \<or> h1 \<le> 0 \<or> w2 \<le> 0 \<or> h2 \<le> 0
        \<or> cx1 + w1 / 2 \<le> cx2 - w2 / 2 \<or> cx2 + w2 / 2 \<le> cx1 - w1 / 2
        \<or> cy1 + h1 / 2 \<le> cy2 - h2 / 2 \<or> cy2 + h2 / 2 \<le> cy1 - h1 / 2"
  proof -
    from that have "iw = 0 \<or> ih = 0"
      unfolding iw_def ih_def clamp_min0_def by (auto simp: max_def min_def)
    then show ?thesis unfolding v_def by auto
  qed
  show ?thesis
    using r v0 v1 z unfolding a b by auto
qed

text \<open>
  Witness for C8: the theorem at a box of width zero against a 2 by 2 box around the same centre, with the
  default epsilon: the hypotheses hold and the result is the value 0.
\<close>

theorem C8_bbox_iou_degenerate_witness:
  "length [0, 0, 0, 5 :: real] = 4 \<and> length [0, 0, 2, 2 :: real] = 4 \<and> 0 < eps_default
   \<and> bbox_iou [0, 0, 0, 5] [0, 0, 2, 2] eps_default = Inr 0"
proof -
  have e: "0 < eps_default" by (simp add: eps_default_def)
  have "\<exists>v. bbox_iou [0, 0, 0, 5] [0, 0, 2, 2] eps_default = Inr v \<and> v = 0"
    using C8_bbox_iou_degenerate [of "[0, 0, 0, 5]" "[0, 0, 2, 2]" eps_default] e by simp
  then show ?thesis using e by auto
qed

text \<open>
  Claim C3 (the code departs from it).  The docstring of \<open>bbox_iou\<close> promises boxes "in
  (x_center,y_center,w,h) form or (x1,y1,x2,y2)", but the only test before the conversion
  is that the trailing dimension is 4, which both encodings satisfy.  Corner-form boxes are
  therefore converted a second time, as if \<open>(x1, y1)\<close> were a centre and \<open>(x2, y2)\<close> a
  size.  For the corner-form boxes \<open>(0,0,2,2)\<close> and \<open>(1,1,3,3)\<close> the intersection over
  union on the corner coordinates is \<open>1 / (7 + eps)\<close>; \<open>bbox_iou\<close> returns
  \<open>2.25 / (10.75 + eps)\<close>.
\<close>

theorem C3_bbox_iou_reconverts_corner_form:
  "bbox_iou [0, 0, 2, 2] [1, 1, 3, 3] eps_default = Inr (22500000 / 107500001)
   \<and> spec_iou_corner [0, 0, 2, 2] [1, 1, 3, 3] eps_default = 10000000 / 70000001
   \<and> bbox_iou [0, 0, 2, 2] [1, 1, 3, 3] eps_default
       \<noteq> Inr (spec_iou_corner [0, 0, 2, 2] [1, 1, 3, 3] eps_default)"
  by (simp add: bbox_iou_boxes spec_iou_corner_def clamp_min0_def eps_default_def)

section \<open>Facts about the suppression\<close>

lemma sequenceE_Inr_iff:
  "sequenceE ms = Inr vs \<longleftrightarrow> ms = map Inr vs"
proof (induction ms arbitrary: vs)
  case Nil
  show ?case by auto
next
  case (Cons m ms)
  show ?case
  proof (cases m)
    case (Inl e)
    then show ?thesis by (cases vs) auto
  next
    case (Inr v)
    show ?thesis
    proof (cases "sequenceE ms")
      case (Inl e)
      with Cons.IH have "\<And>ws. ms \<noteq> map Inr ws" by auto
      with Inl Inr show ?thesis by (cases vs) auto
    next
      case r: (Inr ws)
      from Cons.IH [of ws] r have "ms = map Inr ws" by simp
      with r Inr show ?thesis by (cases vs) auto
    qed
  qed
qed

lemma sequenceE_map_Inr: "sequenceE (map Inr vs) = Inr vs"
  by (simp add: sequenceE_Inr_iff)

lemma sequenceE_total:
  assumes "\<forall>m\<in>set ms. \<exists>v. m = Inr v"
  shows "\<exists>vs. sequenceE ms = Inr vs"
  using assms
proof (induction ms)
  case Nil
  show ?case by simp
next
  case (Cons m ms)
  then obtain v vs where "m = Inr v" "sequenceE ms = Inr vs" by auto
  then show ?case by simp
qed

lemma select_subset:
  "set (map fst (filter Q (zip rest ious))) \<subseteq> set rest"
  by (auto dest: set_zip_leftD)

lemma select_sorted:
  "sorted_wrt P rest \<Longrightarrow> sorted_wrt P (map fst (filter Q (zip rest ious)))"
proof (induction rest arbitrary: ious)
  case Nil
  show ?case by simp
next
  case (Cons r rest)
  show ?case
  proof (cases ious)
    case Nil
    then show ?thesis by simp
  next
    case (Cons u us)
    have "set (map fst (filter Q (zip rest us))) \<subseteq> set rest" by (rule select_subset)
    with Cons.prems Cons.IH [of us] Cons show ?thesis by auto
  qed
qed

lemma nms_loop_sorted:
  assumes "nms_loop thr cs keep = Inr out" and "sorted_wrt P (keep @ cs)"
  shows "sorted_wrt P out"
  using assms
proof (induction thr cs keep arbitrary: out rule: nms_loop.induct)
  case (1 thr keep)
  then show ?case by simp
next
  case (2 thr best rest keep)
  show ?case
  proof (cases "rest = []")
    case True
    with "2.prems" show ?thesis by auto
  next
    case False
    with "2.prems"(1) obtain ious where
      s: "sequenceE (map (\<lambda>c. bbox_iou (fst best) (fst c) eps_default) rest) = Inr ious"
      and r: "nms_loop thr (map fst (filter (\<lambda>(c, iou). iou < thr) (zip rest ious))) (keep @ [best]) = Inr out"
      by (auto split: sum.splits)
    let ?sel = "map fst (filter (\<lambda>(c, iou). iou < thr) (zip rest ious))"
    have sub: "set ?sel \<subseteq> set rest" by (rule select_subset)
    have "sorted_wrt P rest" using "2.prems"(2) by (simp add: sorted_wrt_append)
    then have "sorted_wrt P ?sel" by (rule select_sorted)
    with "2.prems"(2) sub have "sorted_wrt P ((keep @ [best]) @ ?sel)"
      by (auto simp: sorted_wrt_append)
    with "2.IH" [OF False s r] show ?thesis .
  qed
qed

lemma nms_loop_total:
  assumes "\<forall>c\<in>set cs. length (fst c) = 4"
  shows "\<exists>out. nms_loop thr cs keep = Inr out"
  using assms
proof (induction thr cs keep rule: nms_loop.induct)
  case (1 thr keep)
  show ?case by simp
next
  case (2 thr best rest keep)
  show ?case
  proof (cases "rest = []")
    case True
    then show ?thesis by simp
  next
    case False
    have "\<forall>m\<in>set (map (\<lambda>c. bbox_iou (fst best) (fst c) eps_default) rest). \<exists>v. m = Inr v"
      using "2.prems" by (auto intro: bbox_iou_total)
    then obtain ious where
      s: "sequenceE (map (\<lambda>c. bbox_iou (fst best) (fst c) eps_default) rest) = Inr ious"
      using sequenceE_total by blast
    let ?sel = "map fst (filter (\<lambda>(c, iou). iou < thr) (zip rest ious))"
    have "set ?sel \<subseteq> set rest" by (rule select_subset)
    with "2.prems" have "\<forall>c\<in>set ?sel. length (fst c) = 4" by (meson list.set_intros(2) subsetD)
    from "2.IH" [OF False s this] False s show ?thesis by simp
  qed
qed

lemma torch_max_None_iff: "torch_max xs = None \<longleftrightarrow> xs = []"
  by (cases xs) (auto split: option.splits)

lemma flat_rows_length: "row \<in> set (flat_rows p b) \<Longrightarrow> length row = dimC p"
  by (auto simp: flat_rows_def)

lemma row_candidate_total:
  assumes "5 < length row"
  shows "\<exists>box s c. row_candidate row = Inr (box, s, c) \<and> length box = 4"
proof -
  from assms have "drop 5 row \<noteq> []" by simp
  then obtain m k where "torch_max (drop 5 row) = Some (m, k)"
    using torch_max_None_iff [of "drop 5 row"] by (cases "torch_max (drop 5 row)") auto
  with assms show ?thesis by (simp add: row_candidate_def)
qed

lemma row_candidate_box:
  assumes "row_candidate row = Inr c"
  shows "length (fst c) = 4"
  using assms by (auto simp: row_candidate_def split: if_splits option.splits)

lemma xywh_to_xyxy_length:
  assumes "xywh_to_xyxy box = Inr b"
  shows "length b = 4"
  using assms by (auto simp: xywh_to_xyxy_def Let_def split: if_splits)

lemma xywh_to_xyxy_total:
  assumes "length box = 4"
  shows "\<exists>b. xywh_to_xyxy box = Inr b"
  using assms by (simp add: xywh_to_xyxy_def Let_def)

lemma convert_candidate_box:
  assumes "convert_candidate c = Inr d"
  shows "length (fst d) = 4"
  using assms
  by (cases c) (auto simp: convert_candidate_def bindE_def split: sum.splits dest: xywh_to_xyxy_length)

lemma convert_candidate_total:
  assumes "length (fst c) = 4"
  shows "\<exists>d. convert_candidate c = Inr d"
  using xywh_to_xyxy_total [OF assms]
  by (cases c) (auto simp: convert_candidate_def bindE_def)

lemma nms_image_unfold:
  "nms_image p b conf thr =
     (if dimC p = 0 then Inl RuntimeError
      else if dimC p \<le> 5 then Inl IndexError
      else
        bindE (sequenceE (map row_candidate (flat_rows p b))) (\<lambda>cands.
          if filter (\<lambda>c. confidence c > conf) cands = [] then Inr []
          else
            bindE (sequenceE (map convert_candidate (filter (\<lambda>c. confidence c > conf) cands)))
              (\<lambda>converted. nms_loop thr (sort_key (\<lambda>c. - confidence c) converted) [])))"
proof -
  have 1: "(\<lambda>(box, score, cls). score > conf) = (\<lambda>c. confidence c > conf)"
    by (auto simp: confidence_def)
  have 2: "(\<lambda>(box, score, cls). - score) = (\<lambda>c :: candidate. - confidence c)"
    by (auto simp: confidence_def)
  show ?thesis
    unfolding nms_image_def Let_def 1 2 convert_candidate_def [symmetric] by simp
qed

lemma sorted_desc_sort_key:
  "sorted_wrt (\<lambda>c d. confidence d \<le> confidence c) (sort_key (\<lambda>c. - confidence c) xs)"
proof -
  have "sorted (map (\<lambda>c. - confidence c) (sort_key (\<lambda>c. - confidence c) xs))"
    by (rule sorted_sort_key)
  then show ?thesis by (simp add: sorted_map)
qed

lemma nms_image_sorted:
  assumes "nms_image p b conf thr = Inr out"
  shows "sorted_wrt (\<lambda>c d. confidence d \<le> confidence c) out"
proof -
  from assms obtain cands where
    r: "(if filter (\<lambda>c. confidence c > conf) cands = [] then Inr []
         else bindE (sequenceE (map convert_candidate (filter (\<lambda>c. confidence c > conf) cands)))
              (\<lambda>converted. nms_loop thr (sort_key (\<lambda>c. - confidence c) converted) [])) = Inr out"
    by (auto simp: nms_image_unfold bindE_def split: if_splits sum.splits)
  show ?thesis
  proof (cases "filter (\<lambda>c. confidence c > conf) cands = []")
    case True
    with r show ?thesis by simp
  next
    case False
    with r obtain converted where
      "nms_loop thr (sort_key (\<lambda>c. - confidence c) converted) [] = Inr out"
      by (auto simp: bindE_def split: sum.splits)
    then show ?thesis
      by (rule nms_loop_sorted) (simp add: sorted_desc_sort_key)
  qed
qed

lemma nms_image_total:
  assumes "5 < dimC p"
  shows "\<exists>out. nms_image p b conf thr = Inr out"
proof -
  have "\<exists>v. row_candidate row = Inr v" if "row \<in> set (flat_rows p b)" for row
  proof -
    from that assms have "5 < length row" by (simp add: flat_rows_length)
    from row_candidate_total [OF this] show ?thesis by blast
  qed
  then have "\<forall>m\<in>set (map row_candidate (flat_rows p b)). \<exists>v. m = Inr v"
    by auto
  then obtain cands where c: "sequenceE (map row_candidate (flat_rows p b)) = Inr cands"
    using sequenceE_total by blast
  then have m: "map row_candidate (flat_rows p b) = map Inr cands"
    by (simp add: sequenceE_Inr_iff)
  have len: "length (fst c) = 4" if "c \<in> set cands" for c
  proof -
    from that have "Inr c \<in> set (map row_candidate (flat_rows p b))" unfolding m by simp
    then obtain row where "row_candidate row = Inr c" by auto
    then show ?thesis by (rule row_candidate_box)
  qed
  let ?masked = "filter (\<lambda>c. confidence c > conf) cands"
  have "\<forall>m\<in>set (map convert_candidate ?masked). \<exists>v. m = Inr v"
    using len convert_candidate_total by auto
  then obtain converted where d: "sequenceE (map convert_candidate ?masked) = Inr converted"
    using sequenceE_total by blast
  then have m2: "map convert_candidate ?masked = map Inr converted"
    by (simp add: sequenceE_Inr_iff)
  have "length (fst d) = 4" if "d \<in> set converted" for d
  proof -
    from that have "Inr d \<in> set (map convert_candidate ?masked)" unfolding m2 by simp
    then obtain c where "convert_candidate c = Inr d" by auto
    then show ?thesis by (rule convert_candidate_box)
  qed
  then have "\<forall>c\<in>set (sort_key (\<lambda>c. - confidence c) converted). length (fst c) = 4"
    by simp
  then obtain out where "nms_loop thr (sort_key (\<lambda>c. - confidence c) converted) [] = Inr out"
    using nms_loop_total by blast
  with assms c d show ?thesis
    by (simp add: nms_image_unfold bindE_def)
qed

lemma non_max_suppression_Inr:
  assumes "non_max_suppression p conf thr = Inr out"
  shows "length out = dimB p"
    and "dets \<in> set out \<Longrightarrow> \<exists>b. nms_image p b conf thr = Inr dets"
proof -
  from assms have m: "map (\<lambda>b. nms_image p b conf thr) [0..<dimB p] = map Inr out"
    by (simp add: non_max_suppression_def sequenceE_Inr_iff)
  from arg_cong [OF m, of length] show "length out = dimB p" by simp
  assume "dets \<in> set out"
  then have "Inr dets \<in> set (map (\<lambda>b. nms_image p b conf thr) [0..<dimB p])"
    unfolding m by simp
  then show "\<exists>b. nms_image p b conf thr = Inr dets" by auto
qed

text \<open>
  What the loop does guarantee: any two kept rows, the earlier against the later, have a
  \<open>bbox_iou\<close> below the threshold.  \<open>bbox_iou\<close> here is applied to corner-form boxes
  and converts them again, so this is not a bound on the overlap of the returned boxes.
\<close>

lemma sequenceE_zip:
  assumes "sequenceE (map f xs) = Inr vs" and "(x, v) \<in> set (zip xs vs)"
  shows "f x = Inr v"
proof -
  from assms(1) have m: "map f xs = map Inr vs" by (simp add: sequenceE_Inr_iff)
  from assms(2) obtain i where i: "i < length xs" "i < length vs" "xs ! i = x" "vs ! i = v"
    by (auto simp: in_set_zip)
  from arg_cong [OF m, of "\<lambda>l. l ! i"] i show ?thesis by simp
qed

lemma nms_loop_pairwise:
  assumes "nms_loop thr cs keep = Inr out"
    and "sorted_wrt (\<lambda>a b. \<exists>v. bbox_iou (fst a) (fst b) eps_default = Inr v \<and> v < thr) keep"
    and "\<forall>k\<in>set keep. \<forall>c\<in>set cs. \<exists>v. bbox_iou (fst k) (fst c) eps_default = Inr v \<and> v < thr"
  shows "sorted_wrt (\<lambda>a b. \<exists>v. bbox_iou (fst a) (fst b) eps_default = Inr v \<and> v < thr) out"
  using assms
proof (induction thr cs keep arbitrary: out rule: nms_loop.induct)
  case (1 thr keep)
  then show ?case by simp
next
  case (2 thr best rest keep)
  let ?P = "\<lambda>a b. \<exists>v. bbox_iou (fst a) (fst b) eps_default = Inr v \<and> v < thr"
  have k: "sorted_wrt ?P (keep @ [best])"
    using "2.prems"(2,3) by (simp add: sorted_wrt_append)
  show ?case
  proof (cases "rest = []")
    case True
    with "2.prems"(1) k show ?thesis by simp
  next
    case False
    with "2.prems"(1) obtain ious where
      s: "sequenceE (map (\<lambda>c. bbox_iou (fst best) (fst c) eps_default) rest) = Inr ious"
      and r: "nms_loop thr (map fst (filter (\<lambda>(c, iou). iou < thr) (zip rest ious))) (keep @ [best]) = Inr out"
      by (auto split: sum.splits)
    let ?sel = "map fst (filter (\<lambda>(c, iou). iou < thr) (zip rest ious))"
    have sub: "set ?sel \<subseteq> set rest" by (rule select_subset)
    have b: "?P best c" if "c \<in> set ?sel" for c
    proof -
      from that obtain iou where z: "(c, iou) \<in> set (zip rest ious)" and lt: "iou < thr"
        by auto
      from sequenceE_zip [OF s z] lt show ?thesis by blast
    qed
    have "\<forall>k\<in>set (keep @ [best]). \<forall>c\<in>set ?sel. ?P k c"
    proof (intro ballI)
      fix k c assume kk: "k \<in> set (keep @ [best])" and c: "c \<in> set ?sel"
      show "?P k c"
      proof (cases "k = best")
        case True
        with b [OF c] show ?thesis by simp
      next
        case False
        with kk have "k \<in> set keep" by simp
        moreover from c sub have "c \<in> set (best # rest)" by auto
        ultimately show ?thesis using "2.prems"(3) by blast
      qed
    qed
    from "2.IH" [OF False s r k this] show ?thesis .
  qed
qed

lemma nms_image_pairwise:
  assumes "nms_image p b conf thr = Inr out" and "i < j" and "j < length out"
  shows "\<exists>v. bbox_iou (fst (out ! i)) (fst (out ! j)) eps_default = Inr v \<and> v < thr"
proof -
  let ?P = "\<lambda>a b. \<exists>v. bbox_iou (fst a) (fst b) eps_default = Inr v \<and> v < thr"
  from assms(1) obtain cands where
    r: "(if filter (\<lambda>c. confidence c > conf) cands = [] then Inr []
         else bindE (sequenceE (map convert_candidate (filter (\<lambda>c. confidence c > conf) cands)))
              (\<lambda>converted. nms_loop thr (sort_key (\<lambda>c. - confidence c) converted) [])) = Inr out"
    by (auto simp: nms_image_unfold bindE_def split: if_splits sum.splits)
  have "sorted_wrt ?P out"
  proof (cases "filter (\<lambda>c. confidence c > conf) cands = []")
    case True
    with r show ?thesis by simp
  next
    case False
    with r obtain converted where
      "nms_loop thr (sort_key (\<lambda>c. - confidence c) converted) [] = Inr out"
      by (auto simp: bindE_def split: sum.splits)
    then show ?thesis by (rule nms_loop_pairwise) simp_all
  qed
  with assms(2,3) show ?thesis by (simp add: sorted_wrt_iff_nth_less)
qed

section \<open>Claims about the suppression\<close>

text \<open>
  Claim C9.  For every prediction tensor and all thresholds, each detection list that
  \<open>non_max_suppression\<close> returns is in descending order of confidence: for \<open>i < j\<close>
  the confidence of detection \<open>i\<close> is at least that of detection \<open>j\<close>.  The call does
  return, one list per image, whenever the tensor has at least one class channel
  (more than five channels); with fewer it raises.
\<close>

theorem C9_nms_descending_confidence:
  "(5 < dimC p \<longrightarrow> (\<exists>out. non_max_suppression p conf thr = Inr out \<and> length out = dimB p))
   \<and> (\<forall>out. non_max_suppression p conf thr = Inr out \<longrightarrow>
         (\<forall>dets\<in>set out. \<forall>i j. i < j \<and> j < length dets \<longrightarrow>
            confidence (dets ! j) \<le> confidence (dets ! i)))"
proof (intro conjI impI allI ballI)
  assume nc: "5 < dimC p"
  have "\<forall>m\<in>set (map (\<lambda>b. nms_image p b conf thr) [0..<dimB p]). \<exists>v. m = Inr v"
    using nms_image_total [OF nc] by auto
  then obtain out where o: "non_max_suppression p conf thr = Inr out"
    unfolding non_max_suppression_def using sequenceE_total by blast
  with non_max_suppression_Inr(1) [OF o]
  show "\<exists>out. non_max_suppression p conf thr = Inr out \<and> length out = dimB p" by blast
next
  fix out dets i j
  assume o: "non_max_suppression p conf thr = Inr out" and d: "dets \<in> set out"
    and ij: "i < j \<and> j < length dets"
  from non_max_suppression_Inr(2) [OF o d] obtain b where "nms_image p b conf thr = Inr dets" ..
  then have "sorted_wrt (\<lambda>c d. confidence d \<le> confidence c) dets" by (rule nms_image_sorted)
  with ij show "confidence (dets ! j) \<le> confidence (dets ! i)"
    by (simp add: sorted_wrt_iff_nth_less)
qed

text \<open>
  Witness for C9: the theorem at the two-cell tensor with both thresholds 0.5: the call returns both
  boxes, the score 0.9 before the score 0.8.
\<close>

theorem C9_nms_descending_confidence_witness:
  "5 < dimC pred_two_boxes
   \<and> non_max_suppression pred_two_boxes (1/2) (1/2)
       = Inr [[([0, 0, 1, 1], 9/10, 0), ([1/5, 1/5, 1, 1], 4/5, 0)]]
   \<and> (0::nat) < 1 \<and> 1 < length [([0, 0, 1, 1], 9/10, 0), ([1/5, 1/5, 1, 1 :: real], 4/5 :: real, 0 :: nat)]
   \<and> confidence ([([0, 0, 1, 1], 9/10, 0), ([1/5, 1/5, 1, 1], 4/5, 0)] ! 1)
       \<le> confidence ([([0, 0, 1, 1], 9/10, 0), ([1/5, 1/5, 1, 1], 4/5, 0)] ! 0)"
proof -
  have nc: "5 < dimC pred_two_boxes" by (simp add: pred_two_boxes_def)
  have r: "non_max_suppression pred_two_boxes (1/2) (1/2)
       = Inr [[([0, 0, 1, 1], 9/10, 0), ([1/5, 1/5, 1, 1], 4/5, 0)]]"
    by code_simp
  from C9_nms_descending_confidence [of pred_two_boxes "1/2" "1/2"] r
  have "confidence ([([0, 0, 1, 1], 9/10, 0), ([1/5, 1/5, 1, 1], 4/5, 0)] ! 1)
       \<le> confidence ([([0, 0, 1, 1], 9/10, 0), ([1/5, 1/5, 1, 1], 4/5, 0)] ! 0)"
    by auto
  with nc r show ?thesis by simp
qed

text \<open>When no score exceeds the confidence threshold, the mask is empty.\<close>

lemma sequenceE_elems:
  assumes "sequenceE ms = Inr vs" and "v \<in> set vs"
  shows "Inr v \<in> set ms"
  using assms by (auto simp: sequenceE_Inr_iff)

lemma nms_image_empty:
  assumes nc: "5 < dimC p"
    and sc: "\<forall>row\<in>set (flat_rows p b). \<forall>c. row_candidate row = Inr c \<longrightarrow> confidence c \<le> conf"
  shows "nms_image p b conf thr = Inr []"
proof -
  have "\<exists>v. row_candidate row = Inr v" if "row \<in> set (flat_rows p b)" for row
  proof -
    from that nc have "5 < length row" by (simp add: flat_rows_length)
    from row_candidate_total [OF this] show ?thesis by blast
  qed
  then have "\<forall>m\<in>set (map row_candidate (flat_rows p b)). \<exists>v. m = Inr v" by auto
  then obtain cands where c: "sequenceE (map row_candidate (flat_rows p b)) = Inr cands"
    using sequenceE_total by blast
  have "confidence v \<le> conf" if "v \<in> set cands" for v
  proof -
    from sequenceE_elems [OF c that] obtain row where
      "row \<in> set (flat_rows p b)" "row_candidate row = Inr v" by auto
    with sc show ?thesis by blast
  qed
  then have "filter (\<lambda>c. confidence c > conf) cands = []"
    by (auto simp: filter_empty_conv not_less)
  with nc c show ?thesis by (simp add: nms_image_unfold bindE_def)
qed

text \<open>
  Claim C4, as amended.  For every prediction tensor with at least one class channel in
  which no candidate's score (objectness times the largest class score) exceeds 1.1,
  \<open>non_max_suppression\<close> with \<open>conf_threshold = 1.1\<close> returns the empty detection list
  for every image.  The decoder reads the raw tensor; nothing in it bounds a score by 1.
\<close>

theorem C4_nms_threshold_above_scores:
  assumes nc: "5 < dimC p"
    and sc: "\<forall>b<dimB p. \<forall>row\<in>set (flat_rows p b). \<forall>c.
               row_candidate row = Inr c \<longrightarrow> confidence c \<le> 11/10"
  shows "non_max_suppression p (11/10) thr = Inr (replicate (dimB p) [])"
proof -
  have "map (\<lambda>b. nms_image p b (11/10) thr) [0..<dimB p] = map (\<lambda>b. Inr []) [0..<dimB p]"
    using nms_image_empty [OF nc] sc by (intro map_cong) auto
  also have "\<dots> = map Inr (replicate (dimB p) [])"
    by (simp add: map_replicate_const)
  finally show ?thesis
    by (simp only: non_max_suppression_def sequenceE_map_Inr)
qed

text \<open>Witness for C4: the amended claim at the two-cell tensor, whose scores are 0.9 and 0.8.\<close>

theorem C4_nms_threshold_above_scores_witness:
  "5 < dimC pred_two_boxes
   \<and> flat_rows pred_two_boxes 0 = [[1/2, 1/2, 1, 1, 9/10, 1], [3/5, 3/5, 4/5, 4/5, 4/5, 1]]
   \<and> row_candidate [1/2, 1/2, 1, 1, 9/10, 1] = Inr ([1/2, 1/2, 1, 1], 9/10, 0)
   \<and> row_candidate [3/5, 3/5, 4/5, 4/5, 4/5, 1] = Inr ([3/5, 3/5, 4/5, 4/5], 4/5, 0)
   \<and> non_max_suppression pred_two_boxes (11/10) (1/2) = Inr [[]]"
proof -
  have nc: "5 < dimC pred_two_boxes" by (simp add: pred_two_boxes_def)
  have fl: "flat_rows pred_two_boxes 0 = [[1/2, 1/2, 1, 1, 9/10, 1], [3/5, 3/5, 4/5, 4/5, 4/5, 1]]"
    by code_simp
  have rc: "row_candidate [1/2, 1/2, 1, 1, 9/10, 1] = Inr ([1/2, 1/2, 1, 1], 9/10, 0)"
    "row_candidate [3/5, 3/5, 4/5, 4/5, 4/5, 1] = Inr ([3/5, 3/5, 4/5, 4/5], 4/5, 0)"
    by (simp_all add: row_candidate_def)
  have sc: "\<forall>b<dimB pred_two_boxes. \<forall>row\<in>set (flat_rows pred_two_boxes b). \<forall>c.
               row_candidate row = Inr c \<longrightarrow> confidence c \<le> 11/10"
    by (auto simp: pred_two_boxes_def [THEN arg_cong, of dimB] fl rc confidence_def)
  from C4_nms_threshold_above_scores [OF nc sc, of "1/2"]
  have "non_max_suppression pred_two_boxes (11/10) (1/2) = Inr [[]]"
    by (simp add: pred_two_boxes_def)
  with nc fl rc show ?thesis by blast
qed

text \<open>
  Claim C4 as stated fails: a raw objectness of 2 with a class score of 1 gives the score
  2, which passes the threshold 1.1, and the detection is returned.
\<close>

theorem C4_nms_raw_score_counterexample:
  "non_max_suppression pred_raw_score (11/10) (1/2) = Inr [[([0, 0, 1, 1], 2, 0)]]
   \<and> non_max_suppression pred_raw_score (11/10) (1/2) \<noteq> Inr [[]]"
  by code_simp

text \<open>
  Claim C2 (the code departs from it).  The loop hands the corner-form \<open>boxes_xyxy\<close> to
  \<open>bbox_iou\<close>, which converts them once more as if they were in centre form.  For the
  two-cell tensor and both thresholds 0.5, the corner-form boxes \<open>(0, 0, 1, 1)\<close> and
  \<open>(0.2, 0.2, 1, 1)\<close> have an intersection over union of \<open>0.64 / (1 + eps)\<close>, above the
  threshold, but \<open>bbox_iou\<close> computes \<open>0.64 / (1.36 + eps)\<close>, below it, and both
  detections are returned.
\<close>

theorem C2_nms_keeps_overlapping_boxes:
  "non_max_suppression pred_two_boxes (1/2) (1/2)
     = Inr [[([0, 0, 1, 1], 9/10, 0), ([1/5, 1/5, 1, 1], 4/5, 0)]]
   \<and> spec_iou_corner [0, 0, 1, 1] [1/5, 1/5, 1, 1] eps_default = 6400000 / 10000001
   \<and> 1/2 < spec_iou_corner [0, 0, 1, 1] [1/5, 1/5, 1, 1] eps_default
   \<and> bbox_iou [0, 0, 1, 1] [1/5, 1/5, 1, 1] eps_default = Inr (6400000 / 13600001)"
  by code_simp

section \<open>Facts about tensors and the anchor choice\<close>

lemma tensor_upd_dims [simp]:
  "dimB (tensor_upd t b a j i c v) = dimB t"
  "dimA (tensor_upd t b a j i c v) = dimA t"
  "dimH (tensor_upd t b a j i c v) = dimH t"
  "dimW (tensor_upd t b a j i c v) = dimW t"
  "dimC (tensor_upd t b a j i c v) = dimC t"
  by (simp_all add: tensor_upd_def)

lemma tensor_upd_elems:
  "elems (tensor_upd t b a j i c v) b2 a2 j2 i2 c2 =
     (if b2 = b \<and> a2 = a \<and> j2 = j \<and> i2 = i \<and> c2 = c then v else elems t b2 a2 j2 i2 c2)"
  by (simp add: tensor_upd_def)

lemma py_index_nonneg:
  "0 \<le> i \<Longrightarrow> py_index n i = (if i < int n then Some (nat i) else None)"
  by (simp add: py_index_def)

lemma tensor_set_ok:
  assumes "0 \<le> b" "b < int (dimB t)" "0 \<le> a" "a < int (dimA t)" "0 \<le> j" "j < int (dimH t)"
    "0 \<le> i" "i < int (dimW t)" "0 \<le> c" "c < int (dimC t)"
  shows "tensor_set t b a j i c v = Inr (tensor_upd t (nat b) (nat a) (nat j) (nat i) (nat c) v)"
  using assms by (simp add: tensor_set_def py_index_nonneg)

lemma tensor_set_Inr:
  assumes "tensor_set t b a j i c v = Inr t'"
  obtains b' a' j' i' c' where "py_index (dimB t) b = Some b'" "py_index (dimA t) a = Some a'"
    "py_index (dimH t) j = Some j'" "py_index (dimW t) i = Some i'" "py_index (dimC t) c = Some c'"
    "t' = tensor_upd t b' a' j' i' c' v"
  using assms by (auto simp: tensor_set_def split: option.splits)

lemma tensor_set_Inl:
  assumes "tensor_set t b a j i c v = Inl e"
  shows "e = IndexError"
  using assms by (auto simp: tensor_set_def split: option.splits)

lemma tensor_set_dims:
  assumes "tensor_set t b a j i c v = Inr t'"
  shows "dimB t' = dimB t \<and> dimA t' = dimA t \<and> dimH t' = dimH t \<and> dimW t' = dimW t \<and> dimC t' = dimC t"
  using assms by (auto elim!: tensor_set_Inr)

lemma tensor_set_out_of_range:
  assumes "int (dimW t) \<le> i \<or> int (dimH t) \<le> j"
  shows "tensor_set t b a j i c v = Inl IndexError"
  using assms by (auto simp: tensor_set_def py_index_def split: option.splits)

lemma torch_max_index:
  "torch_max xs = Some (m, i) \<Longrightarrow> i < length xs"
  by (induction xs arbitrary: m i) (auto split: option.splits if_splits)

lemma sequenceE_Inl:
  assumes "sequenceE ms = Inl e"
  shows "Inl e \<in> set ms"
  using assms
proof (induction ms)
  case Nil
  then show ?case by simp
next
  case (Cons m ms)
  then show ?case by (auto split: sum.splits)
qed

lemma xywh_to_xyxy_Inl: "xywh_to_xyxy box = Inl e \<Longrightarrow> e = IndexError"
  by (auto simp: xywh_to_xyxy_def Let_def split: if_splits)

lemma bbox_iou_Inl:
  assumes "bbox_iou a b eps = Inl e"
  shows "e = IndexError"
  using assms
  by (auto simp: bbox_iou_def bindE_def Let_def split: if_splits sum.splits dest: xywh_to_xyxy_Inl)

lemma best_anchor_Inr:
  assumes "best_anchor ancs A box = Inr n"
  shows "n < A"
proof -
  from assms have len: "length ancs = A"
    by (auto simp: best_anchor_def split: if_splits)
  from assms obtain ious m where
    s: "sequenceE (map (\<lambda>(b1, b2). bbox_iou b1 b2 eps_default)
          (zip (replicate A box) (map (\<lambda>(aw, ah). [0, 0, aw, ah]) ancs))) = Inr ious"
    and t: "torch_max ious = Some (m, n)"
    by (auto simp: best_anchor_def bindE_def Let_def split: if_splits sum.splits option.splits)
  from s have "map (\<lambda>(b1, b2). bbox_iou b1 b2 eps_default)
          (zip (replicate A box) (map (\<lambda>(aw, ah). [0, 0, aw, ah]) ancs)) = map Inr ious"
    by (simp add: sequenceE_Inr_iff)
  from arg_cong [OF this, of length] len have "length ious = A" by simp
  with torch_max_index [OF t] show ?thesis by simp
qed

lemma best_anchor_Inl:
  assumes "best_anchor ancs A box = Inl e" and "length ancs = A"
  shows "e = IndexError"
proof (cases "ancs = []")
  case True
  with assms show ?thesis by (simp add: best_anchor_def)
next
  case False
  with assms have
    "bindE (sequenceE (map (\<lambda>(b1, b2). bbox_iou b1 b2 eps_default)
          (zip (replicate A box) (map (\<lambda>(aw, ah). [0, 0, aw, ah]) ancs))))
       (\<lambda>ious. case torch_max ious of None \<Rightarrow> Inl IndexError | Some (m, best_n) \<Rightarrow> Inr best_n)
     = Inl e"
    by (simp add: best_anchor_def)
  then consider
    (seq) "sequenceE (map (\<lambda>(b1, b2). bbox_iou b1 b2 eps_default)
          (zip (replicate A box) (map (\<lambda>(aw, ah). [0, 0, aw, ah]) ancs))) = Inl e"
    | (mx) "e = IndexError"
    by (auto simp: bindE_def split: sum.splits option.splits)
  then show ?thesis
  proof cases
    case seq
    from sequenceE_Inl [OF seq] obtain b1 b2 where "bbox_iou b1 b2 eps_default = Inl e" by auto
    then show ?thesis by (rule bbox_iou_Inl)
  next
    case mx
    then show ?thesis .
  qed
qed

lemma best_anchor_total:
  assumes "ancs \<noteq> []" and "length ancs = A" and "length box = 4"
  shows "\<exists>n. best_anchor ancs A box = Inr n"
proof -
  have "\<forall>m\<in>set (map (\<lambda>(b1, b2). bbox_iou b1 b2 eps_default)
          (zip (replicate A box) (map (\<lambda>(aw, ah). [0, 0, aw, ah]) ancs))). \<exists>v. m = Inr v"
  proof (clarsimp)
    fix b1 b2 assume z: "(b1, b2) \<in> set (zip (replicate A box) (map (\<lambda>(aw, ah). [0, 0, aw, ah]) ancs))"
    from set_zip_leftD [OF z] assms(3) have 1: "length b1 = 4" by auto
    from set_zip_rightD [OF z] have 2: "length b2 = 4" by auto
    from bbox_iou_total [OF 1 2] show "\<exists>v. bbox_iou b1 b2 eps_default = Inr v" .
  qed
  then obtain ious where
    s: "sequenceE (map (\<lambda>(b1, b2). bbox_iou b1 b2 eps_default)
          (zip (replicate A box) (map (\<lambda>(aw, ah). [0, 0, aw, ah]) ancs))) = Inr ious"
    using sequenceE_total by blast
  then have "map (\<lambda>(b1, b2). bbox_iou b1 b2 eps_default)
          (zip (replicate A box) (map (\<lambda>(aw, ah). [0, 0, aw, ah]) ancs)) = map Inr ious"
    by (simp add: sequenceE_Inr_iff)
  from arg_cong [OF this, of length] assms(1,2) have "ious \<noteq> []" by auto
  then obtain m n where "torch_max ious = Some (m, n)"
    using torch_max_None_iff [of ious] by (cases "torch_max ious") auto
  with s assms(1,2) show ?thesis
    by (simp add: best_anchor_def bindE_def)
qed

section \<open>Facts about the target assignment\<close>

text \<open>A successful loop body ran the anchor choice and its six writes.\<close>

lemma assign_gt_Inr:
  assumes "assign_gt L b t gt = Inr t'"
  obtains n t1 t2 t3 t4 t5 where
    "best_anchor (anchors L) (dimA t)
       [gt_x gt * real (dimW t) - real_of_int (int_trunc (gt_x gt * real (dimW t))),
        gt_y gt * real (dimH t) - real_of_int (int_trunc (gt_y gt * real (dimH t))),
        gt_w gt * real (dimW t), gt_h gt * real (dimH t)] = Inr n"
    "tensor_set t (int b) (int n) (int_trunc (gt_y gt * real (dimH t)))
       (int_trunc (gt_x gt * real (dimW t))) 4 1 = Inr t1"
    "tensor_set t1 (int b) (int n) (int_trunc (gt_y gt * real (dimH t)))
       (int_trunc (gt_x gt * real (dimW t))) 0
       (gt_x gt * real (dimW t) - real_of_int (int_trunc (gt_x gt * real (dimW t)))) = Inr t2"
    "tensor_set t2 (int b) (int n) (int_trunc (gt_y gt * real (dimH t)))
       (int_trunc (gt_x gt * real (dimW t))) 1
       (gt_y gt * real (dimH t) - real_of_int (int_trunc (gt_y gt * real (dimH t)))) = Inr t3"
    "tensor_set t3 (int b) (int n) (int_trunc (gt_y gt * real (dimH t)))
       (int_trunc (gt_x gt * real (dimW t))) 2 (gt_w gt * real (dimW t)) = Inr t4"
    "tensor_set t4 (int b) (int n) (int_trunc (gt_y gt * real (dimH t)))
       (int_trunc (gt_x gt * real (dimW t))) 3 (gt_h gt * real (dimH t)) = Inr t5"
    "tensor_set t5 (int b) (int n) (int_trunc (gt_y gt * real (dimH t)))
       (int_trunc (gt_x gt * real (dimW t))) (5 + int_trunc (gt_cls gt)) 1 = Inr t'"
  using assms
  by (auto simp: assign_gt_def bindE_def Let_def split: sum.splits)

lemma assign_gt_dims:
  assumes "assign_gt L b t gt = Inr t'"
  shows "dimB t' = dimB t \<and> dimA t' = dimA t \<and> dimH t' = dimH t \<and> dimW t' = dimW t
         \<and> dimC t' = dimC t"
proof -
  from assms obtain n t1 t2 t3 t4 t5 where
    s: "tensor_set t (int b) (int n) (int_trunc (gt_y gt * real (dimH t)))
       (int_trunc (gt_x gt * real (dimW t))) 4 1 = Inr t1"
    "tensor_set t1 (int b) (int n) (int_trunc (gt_y gt * real (dimH t)))
       (int_trunc (gt_x gt * real (dimW t))) 0
       (gt_x gt * real (dimW t) - real_of_int (int_trunc (gt_x gt * real (dimW t)))) = Inr t2"
    "tensor_set t2 (int b) (int n) (int_trunc (gt_y gt * real (dimH t)))
       (int_trunc (gt_x gt * real (dimW t))) 1
       (gt_y gt * real (dimH t) - real_of_int (int_trunc (gt_y gt * real (dimH t)))) = Inr t3"
    "tensor_set t3 (int b) (int n) (int_trunc (gt_y gt * real (dimH t)))
       (int_trunc (gt_x gt * real (dimW t))) 2 (gt_w gt * real (dimW t)) = Inr t4"
    "tensor_set t4 (int b) (int n) (int_trunc (gt_y gt * real (dimH t)))
       (int_trunc (gt_x gt * real (dimW t))) 3 (gt_h gt * real (dimH t)) = Inr t5"
    "tensor_set t5 (int b) (int n) (int_trunc (gt_y gt * real (dimH t)))
       (int_trunc (gt_x gt * real (dimW t))) (5 + int_trunc (gt_cls gt)) 1 = Inr t'"
    by (rule assign_gt_Inr)
  from s [THEN tensor_set_dims] show ?thesis by simp
qed

lemma assign_gt_Inl:
  assumes "assign_gt L b t gt = Inl e" and "length (anchors L) = dimA t"
  shows "e = IndexError"
  using assms
  by (auto simp: assign_gt_def bindE_def Let_def split: sum.splits
           dest: best_anchor_Inl tensor_set_Inl)

lemma tensor_set_obj_binary:
  assumes "tensor_set t b a j i c v = Inr t'" and "obj_binary t"
    and "v = 1 \<or> (0 \<le> c \<and> c < 4)"
  shows "obj_binary t'"
proof -
  from assms(1) obtain b' a' j' i' c' where
    c: "py_index (dimC t) c = Some c'" and t': "t' = tensor_upd t b' a' j' i' c' v"
    by (rule tensor_set_Inr)
  from assms(3) c have "v = 1 \<or> c' \<noteq> 4"
    by (auto simp: py_index_def split: if_splits)
  with assms(2) show ?thesis
    unfolding t' obj_binary_def tensor_upd_elems by auto
qed

lemma assign_gt_obj_binary:
  assumes "assign_gt L b t gt = Inr t'" and "obj_binary t"
  shows "obj_binary t'"
proof -
  from assms(1) obtain n t1 t2 t3 t4 t5 where
    s1: "tensor_set t (int b) (int n) (int_trunc (gt_y gt * real (dimH t)))
       (int_trunc (gt_x gt * real (dimW t))) 4 1 = Inr t1"
    and s2: "tensor_set t1 (int b) (int n) (int_trunc (gt_y gt * real (dimH t)))
       (int_trunc (gt_x gt * real (dimW t))) 0
       (gt_x gt * real (dimW t) - real_of_int (int_trunc (gt_x gt * real (dimW t)))) = Inr t2"
    and s3: "tensor_set t2 (int b) (int n) (int_trunc (gt_y gt * real (dimH t)))
       (int_trunc (gt_x gt * real (dimW t))) 1
       (gt_y gt * real (dimH t) - real_of_int (int_trunc (gt_y gt * real (dimH t)))) = Inr t3"
    and s4: "tensor_set t3 (int b) (int n) (int_trunc (gt_y gt * real (dimH t)))
       (int_trunc (gt_x gt * real (dimW t))) 2 (gt_w gt * real (dimW t)) = Inr t4"
    and s5: "tensor_set t4 (int b) (int n) (int_trunc (gt_y gt * real (dimH t)))
       (int_trunc (gt_x gt * real (dimW t))) 3 (gt_h gt * real (dimH t)) = Inr t5"
    and s6: "tensor_set t5 (int b) (int n) (int_trunc (gt_y gt * real (dimH t)))
       (int_trunc (gt_x gt * real (dimW t))) (5 + int_trunc (gt_cls gt)) 1 = Inr t'"
    by (rule assign_gt_Inr)
  have b1: "obj_binary t1" using tensor_set_obj_binary [OF s1 assms(2)] by simp
  have b2: "obj_binary t2" using tensor_set_obj_binary [OF s2 b1] by simp
  have b3: "obj_binary t3" using tensor_set_obj_binary [OF s3 b2] by simp
  have b4: "obj_binary t4" using tensor_set_obj_binary [OF s4 b3] by simp
  have b5: "obj_binary t5" using tensor_set_obj_binary [OF s5 b4] by simp
  show "obj_binary t'" using tensor_set_obj_binary [OF s6 b5] by simp
qed

text \<open>
  A centre at \<open>x = 1\<close> gives \<open>gi = gw\<close>, one past the last column, and likewise for
  \<open>y\<close>: the first write raises.
\<close>

lemma assign_gt_edge:
  assumes "gt_x gt = 1 \<or> gt_y gt = 1"
  shows "\<exists>e. assign_gt L b t gt = Inl e"
proof (cases "assign_gt L b t gt")
  case (Inl e)
  then show ?thesis by blast
next
  case (Inr t')
  then obtain n t1 where
    "tensor_set t (int b) (int n) (int_trunc (gt_y gt * real (dimH t)))
       (int_trunc (gt_x gt * real (dimW t))) 4 1 = Inr t1"
    by (rule assign_gt_Inr)
  moreover have "int (dimW t) \<le> int_trunc (gt_x gt * real (dimW t))
      \<or> int (dimH t) \<le> int_trunc (gt_y gt * real (dimH t))"
    using assms by (auto simp: int_trunc_def)
  ultimately show ?thesis by (simp add: tensor_set_out_of_range)
qed

lemma same_shape_refl: "same_shape t t"
  by (simp add: same_shape_def)

lemma same_shape_trans: "same_shape t t1 \<Longrightarrow> same_shape t1 t2 \<Longrightarrow> same_shape t t2"
  by (simp add: same_shape_def)

lemma assign_gt_same_shape: "assign_gt L b t gt = Inr t' \<Longrightarrow> same_shape t t'"
  by (simp add: same_shape_def assign_gt_dims)

lemma assign_image_Inr:
  assumes "assign_image L b t gts = Inr t'"
  shows "same_shape t t' \<and> (obj_binary t \<longrightarrow> obj_binary t')"
  using assms
proof (induction gts arbitrary: t)
  case Nil
  then show ?case by (simp add: same_shape_refl)
next
  case (Cons gt gts)
  from Cons.prems obtain t1 where 1: "assign_gt L b t gt = Inr t1"
    and 2: "assign_image L b t1 gts = Inr t'"
    by (auto split: sum.splits)
  from Cons.IH [OF 2] assign_gt_same_shape [OF 1] assign_gt_obj_binary [OF 1]
  show ?case by (blast intro: same_shape_trans)
qed

lemma assign_image_Inl:
  assumes "assign_image L b t gts = Inl e" and "length (anchors L) = dimA t"
  shows "e = IndexError"
  using assms
proof (induction gts arbitrary: t)
  case Nil
  then show ?case by simp
next
  case (Cons gt gts)
  show ?case
  proof (cases "assign_gt L b t gt")
    case (Inl e')
    with Cons.prems have "e' = e" by simp
    with Inl Cons.prems(2) show ?thesis by (auto dest: assign_gt_Inl)
  next
    case (Inr t1)
    with Cons.prems have "assign_image L b t1 gts = Inl e" by simp
    moreover from assign_gt_dims [OF Inr] Cons.prems(2) have "length (anchors L) = dimA t1"
      by simp
    ultimately show ?thesis by (rule Cons.IH)
  qed
qed

lemma assign_image_edge:
  assumes "gt \<in> set gts" and "gt_x gt = 1 \<or> gt_y gt = 1"
  shows "\<exists>e. assign_image L b t gts = Inl e"
  using assms(1)
proof (induction gts arbitrary: t)
  case Nil
  then show ?case by simp
next
  case (Cons g gts)
  show ?case
  proof (cases "assign_gt L b t g")
    case (Inl e)
    then show ?thesis by simp
  next
    case (Inr t1)
    with assign_gt_edge [OF assms(2), of L b t] have "g \<noteq> gt" by auto
    with Cons.prems have "gt \<in> set gts" by simp
    from Cons.IH [OF this, of t1] Inr show ?thesis by simp
  qed
qed

lemma assign_batch_Inr:
  assumes "assign_batch L targets bs t = Inr t'"
  shows "same_shape t t' \<and> (obj_binary t \<longrightarrow> obj_binary t')"
  using assms
proof (induction bs arbitrary: t)
  case Nil
  then show ?case by (simp add: same_shape_refl)
next
  case (Cons b bs)
  from Cons.prems obtain t1 where 1: "assign_image L b t (targets ! b) = Inr t1"
    and 2: "assign_batch L targets bs t1 = Inr t'"
    by (auto split: if_splits sum.splits)
  from Cons.IH [OF 2] assign_image_Inr [OF 1]
  show ?case by (blast intro: same_shape_trans)
qed

lemma assign_batch_Inl:
  assumes "assign_batch L targets bs t = Inl e" and "length (anchors L) = dimA t"
  shows "e = IndexError"
  using assms
proof (induction bs arbitrary: t)
  case Nil
  then show ?case by simp
next
  case (Cons b bs)
  show ?case
  proof (cases "length targets \<le> b")
    case True
    with Cons.prems show ?thesis by simp
  next
    case False
    show ?thesis
    proof (cases "assign_image L b t (targets ! b)")
      case (Inl e')
      with False Cons.prems have "e' = e" by simp
      with Inl Cons.prems(2) show ?thesis by (auto dest: assign_image_Inl)
    next
      case (Inr t1)
      with False Cons.prems have "assign_batch L targets bs t1 = Inl e" by simp
      moreover from assign_image_Inr [OF Inr] Cons.prems(2) have "length (anchors L) = dimA t1"
        by (simp add: same_shape_def)
      ultimately show ?thesis by (rule Cons.IH)
    qed
  qed
qed

lemma assign_batch_edge:
  assumes "b \<in> set bs" and "gt \<in> set (targets ! b)" and "gt_x gt = 1 \<or> gt_y gt = 1"
  shows "\<exists>e. assign_batch L targets bs t = Inl e"
  using assms(1)
proof (induction bs arbitrary: t)
  case Nil
  then show ?case by simp
next
  case (Cons b' bs)
  show ?case
  proof (cases "length targets \<le> b'")
    case True
    then show ?thesis by simp
  next
    case False
    show ?thesis
    proof (cases "assign_image L b' t (targets ! b')")
      case (Inl e)
      with False show ?thesis by simp
    next
      case (Inr t1)
      with assign_image_edge [OF _ assms(3), of "targets ! b'" L b' t] assms(2)
      have "b' \<noteq> b" by auto
      with Cons.prems have "b \<in> set bs" by simp
      from Cons.IH [OF this, of t1] Inr False show ?thesis by simp
    qed
  qed
qed

lemma obj_binary_zeros: "obj_binary (zeros B A gh gw C)"
  by (simp add: obj_binary_def zeros_def)

lemma forward_targets_Inr:
  assumes "forward_targets L preds targets = Inr t"
  shows "dimB t = dimB preds" "dimA t = dimA preds" "dimH t = dimH preds" "dimW t = dimW preds"
    "dimC t = 5 + num_classes L" "obj_binary t"
  using assign_batch_Inr [OF assms [unfolded forward_targets_def]] obj_binary_zeros
  by (simp_all add: same_shape_def zeros_def)

section \<open>Facts about the loss\<close>

lemma sum_list_zero: "(\<And>x. x \<in> set xs \<Longrightarrow> f x = (0::real)) \<Longrightarrow> (\<Sum>x\<leftarrow>xs. f x) = 0"
  by (induction xs) auto

lemma sum_cells_zero:
  assumes "\<And>b a j i. b < B \<Longrightarrow> a < A \<Longrightarrow> j < gh \<Longrightarrow> i < gw \<Longrightarrow> f b a j i = 0"
  shows "sum_cells B A gh gw f = 0"
  unfolding sum_cells_def
  by (intro sum_list_zero) (simp add: assms)

text \<open>
  Claim C5.  When the target tensor \<open>t\<close> is the one \<open>forward\<close> builds from the
  ground-truth boxes and the prediction tensor has the shape and the entries of \<open>t\<close>,
  \<open>forward\<close> returns exactly 0.  (Every objectness target is 0 or 1, so both objectness
  terms vanish along with the box and class terms.)
\<close>

theorem C5_loss_zero_on_targets:
  assumes t: "forward_targets L preds targets = Inr t"
    and c: "dimC preds = dimC t"
    and eq: "\<forall>b<dimB preds. \<forall>a<dimA preds. \<forall>j<dimH preds. \<forall>i<dimW preds. \<forall>c<dimC preds.
               elems preds b a j i c = elems t b a j i c"
  shows "forward L preds targets = Inr 0"
proof -
  note sh = forward_targets_Inr [OF t]
  from sh(5) c have c5: "\<not> dimC preds < 5" by simp
  have bc: "broadcast_dim (dimC preds - 5) (dimC t - 5) = Some (dimC preds - 5)"
    using c by (simp add: broadcast_dim_def)
  have e: "elems preds b a j i k = elems t b a j i k"
    if "b < dimB preds" "a < dimA preds" "j < dimH preds" "i < dimW preds" "k < dimC preds"
    for b a j i k
    using eq that by blast
  have o: "elems t b a j i 4 = 0 \<or> elems t b a j i 4 = 1" for b a j i
    using sh(6) by (simp add: obj_binary_def)
  have k4: "0 < dimC preds" "1 < dimC preds" "2 < dimC preds" "3 < dimC preds" "4 < dimC preds"
    using c5 by simp_all
  have box: "sum_cells (dimB preds) (dimA preds) (dimH preds) (dimW preds) (\<lambda>b a j i.
      elems t b a j i 4 * (((elems preds b a j i 0 - elems t b a j i 0)\<^sup>2
                          + (elems preds b a j i 1 - elems t b a j i 1)\<^sup>2)
                         + ((elems preds b a j i 2 - elems t b a j i 2)\<^sup>2
                          + (elems preds b a j i 3 - elems t b a j i 3)\<^sup>2))) = 0"
  proof (rule sum_cells_zero)
    fix b a j i assume r: "b < dimB preds" "a < dimA preds" "j < dimH preds" "i < dimW preds"
    note e [OF r k4(1)] e [OF r k4(2)] e [OF r k4(3)] e [OF r k4(4)]
    then show "elems t b a j i 4 * (((elems preds b a j i 0 - elems t b a j i 0)\<^sup>2
                          + (elems preds b a j i 1 - elems t b a j i 1)\<^sup>2)
                         + ((elems preds b a j i 2 - elems t b a j i 2)\<^sup>2
                          + (elems preds b a j i 3 - elems t b a j i 3)\<^sup>2)) = 0"
      by (simp only: diff_self power2_eq_square mult_zero_left mult_zero_right add_0_left)
  qed
  have obj: "sum_cells (dimB preds) (dimA preds) (dimH preds) (dimW preds) (\<lambda>b a j i.
      elems t b a j i 4 * (elems preds b a j i 4 - 1)\<^sup>2) = 0"
  proof (rule sum_cells_zero)
    fix b a j i assume "b < dimB preds" "a < dimA preds" "j < dimH preds" "i < dimW preds"
    then have "elems preds b a j i 4 = elems t b a j i 4" by (simp add: e k4)
    with o [of b a j i]
    show "elems t b a j i 4 * (elems preds b a j i 4 - 1)\<^sup>2 = 0" by auto
  qed
  have noobj: "sum_cells (dimB preds) (dimA preds) (dimH preds) (dimW preds) (\<lambda>b a j i.
      (1 - elems t b a j i 4) * (elems preds b a j i 4)\<^sup>2) = 0"
  proof (rule sum_cells_zero)
    fix b a j i assume "b < dimB preds" "a < dimA preds" "j < dimH preds" "i < dimW preds"
    then have "elems preds b a j i 4 = elems t b a j i 4" by (simp add: e k4)
    with o [of b a j i]
    show "(1 - elems t b a j i 4) * (elems preds b a j i 4)\<^sup>2 = 0" by auto
  qed
  have cls: "sum_cells (dimB preds) (dimA preds) (dimH preds) (dimW preds) (\<lambda>b a j i.
      \<Sum>k\<leftarrow>[0..<dimC preds - 5]. elems t b a j i 4
          * (elems preds b a j i (5 + (if dimC preds - 5 = 1 then 0 else k))
             - elems t b a j i (5 + (if dimC t - 5 = 1 then 0 else k)))\<^sup>2) = 0"
  proof (rule sum_cells_zero, rule sum_list_zero)
    fix b a j i k
    assume r: "b < dimB preds" "a < dimA preds" "j < dimH preds" "i < dimW preds"
      and "k \<in> set [0..<dimC preds - 5]"
    then have "5 + (if dimC preds - 5 = 1 then 0 else k) < dimC preds" by auto
    from e [OF r this] c
    show "elems t b a j i 4
          * (elems preds b a j i (5 + (if dimC preds - 5 = 1 then 0 else k))
             - elems t b a j i (5 + (if dimC t - 5 = 1 then 0 else k)))\<^sup>2 = 0"
      by simp
  qed
  have "forward_loss L preds t = Inr 0"
    by (simp only: forward_loss_def Let_def c5 if_False bc option.case box obj noobj cls
          mult_zero_right add_0_left)
  with t show ?thesis by (simp add: forward_def bindE_def)
qed

text \<open>The loop body in closed form when every index is in range.\<close>

lemma assign_gt_ok:
  fixes L :: yolo_loss and t :: tensor5 and gt :: gt_box and b n :: nat
  defines "gi \<equiv> int_trunc (gt_x gt * real (dimW t))"
    and "gj \<equiv> int_trunc (gt_y gt * real (dimH t))"
  assumes best: "best_anchor (anchors L) (dimA t)
       [gt_x gt * real (dimW t) - real_of_int gi, gt_y gt * real (dimH t) - real_of_int gj,
        gt_w gt * real (dimW t), gt_h gt * real (dimH t)] = Inr n"
    and b: "b < dimB t"
    and gi: "0 \<le> gi" "gi < int (dimW t)"
    and gj: "0 \<le> gj" "gj < int (dimH t)"
    and ch: "5 \<le> dimC t"
    and k: "0 \<le> int_trunc (gt_cls gt)" "5 + int_trunc (gt_cls gt) < int (dimC t)"
  shows "assign_gt L b t gt =
     Inr (tensor_upd (tensor_upd (tensor_upd (tensor_upd (tensor_upd (tensor_upd t
            b n (nat gj) (nat gi) 4 1)
            b n (nat gj) (nat gi) 0 (gt_x gt * real (dimW t) - real_of_int gi))
            b n (nat gj) (nat gi) 1 (gt_y gt * real (dimH t) - real_of_int gj))
            b n (nat gj) (nat gi) 2 (gt_w gt * real (dimW t)))
            b n (nat gj) (nat gi) 3 (gt_h gt * real (dimH t)))
            b n (nat gj) (nat gi) (nat (5 + int_trunc (gt_cls gt))) 1)"
proof -
  from best have n: "n < dimA t" by (rule best_anchor_Inr)
  have s: "tensor_set u (int b) (int n) gj gi c v
             = Inr (tensor_upd u b n (nat gj) (nat gi) (nat c) v)"
    if "same_shape t u" "0 \<le> c" "c < int (dimC t)" for u c v
    using tensor_set_ok [of "int b" u "int n" gj gi c v] that b n gi gj
    by (simp add: same_shape_def)
  have sh: "same_shape t (tensor_upd u b' a' j' i' c' v)" if "same_shape t u" for u b' a' j' i' c' v
    using that by (simp add: same_shape_def)
  define t1 where "t1 = tensor_upd t b n (nat gj) (nat gi) 4 1"
  define t2 where "t2 = tensor_upd t1 b n (nat gj) (nat gi) 0
                          (gt_x gt * real (dimW t) - real_of_int gi)"
  define t3 where "t3 = tensor_upd t2 b n (nat gj) (nat gi) 1
                          (gt_y gt * real (dimH t) - real_of_int gj)"
  define t4 where "t4 = tensor_upd t3 b n (nat gj) (nat gi) 2 (gt_w gt * real (dimW t))"
  define t5 where "t5 = tensor_upd t4 b n (nat gj) (nat gi) 3 (gt_h gt * real (dimH t))"
  define t6 where "t6 = tensor_upd t5 b n (nat gj) (nat gi) (nat (5 + int_trunc (gt_cls gt))) 1"
  have sh1: "same_shape t t1" unfolding t1_def by (rule sh) (rule same_shape_refl)
  have sh2: "same_shape t t2" unfolding t2_def using sh1 by (rule sh)
  have sh3: "same_shape t t3" unfolding t3_def using sh2 by (rule sh)
  have sh4: "same_shape t t4" unfolding t4_def using sh3 by (rule sh)
  have sh5: "same_shape t t5" unfolding t5_def using sh4 by (rule sh)
  have 1: "tensor_set t (int b) (int n) gj gi 4 1 = Inr t1"
    using s [OF same_shape_refl, of 4 1] ch by (simp add: t1_def)
  have 2: "tensor_set t1 (int b) (int n) gj gi 0 (gt_x gt * real (dimW t) - real_of_int gi)
             = Inr t2"
    using s [OF sh1, of 0] ch by (simp add: t2_def)
  have 3: "tensor_set t2 (int b) (int n) gj gi 1 (gt_y gt * real (dimH t) - real_of_int gj)
             = Inr t3"
    using s [OF sh2, of 1] ch by (simp add: t3_def)
  have 4: "tensor_set t3 (int b) (int n) gj gi 2 (gt_w gt * real (dimW t)) = Inr t4"
    using s [OF sh3, of 2] ch by (simp add: t4_def)
  have 5: "tensor_set t4 (int b) (int n) gj gi 3 (gt_h gt * real (dimH t)) = Inr t5"
    using s [OF sh4, of 3] ch by (simp add: t5_def)
  have 6: "tensor_set t5 (int b) (int n) gj gi (5 + int_trunc (gt_cls gt)) 1 = Inr t6"
    using s [OF sh5, of "5 + int_trunc (gt_cls gt)"] k by (simp add: t6_def)
  have "assign_gt L b t gt = Inr t6"
    unfolding assign_gt_def Let_def gi_def [symmetric] gj_def [symmetric]
    by (simp only: best bindE_def sum.case 1 2 3 4 5 6)
  then show ?thesis
    unfolding t6_def t5_def t4_def t3_def t2_def t1_def .
qed

lemma assign_batch_skip:
  assumes "\<forall>b\<in>set bs. b < length targets \<and> targets ! b = []"
  shows "assign_batch L targets bs t = Inr t"
  using assms by (induction bs) auto

lemma assign_batch_append:
  "assign_batch L targets (xs @ ys) t
     = bindE (assign_batch L targets xs t) (assign_batch L targets ys)"
  by (induction xs arbitrary: t) (auto simp: bindE_def split: sum.splits)

text \<open>When only image \<open>b0\<close> has boxes, the batch loop is the loop over its boxes.\<close>

lemma assign_batch_single:
  assumes "b0 < B" and "B \<le> length targets"
    and "\<forall>b<B. b \<noteq> b0 \<longrightarrow> targets ! b = []"
  shows "assign_batch L targets [0..<B] t = assign_image L b0 t (targets ! b0)"
proof -
  have split: "[0..<B] = [0..<b0] @ b0 # [Suc b0..<B]"
    using assms(1) by (metis less_imp_le_nat upt_add_eq_append upt_conv_Cons le_add_diff_inverse zero_le)
  have 1: "assign_batch L targets [0..<b0] t = Inr t"
    using assms by (intro assign_batch_skip) auto
  have 2: "assign_batch L targets [Suc b0..<B] u = Inr u" for u
    using assms by (intro assign_batch_skip) auto
  from assms(1,2) have "\<not> length targets \<le> b0" by simp
  then show ?thesis
    unfolding split assign_batch_append 1
    by (simp add: bindE_def 2 split: sum.splits)
qed

lemma int_trunc_unit:
  assumes "0 \<le> x" and "x < 1" and "0 < n"
  shows "0 \<le> int_trunc (x * real n)" and "int_trunc (x * real n) < int n"
    and "int_trunc (x * real n) = \<lfloor>x * real n\<rfloor>"
proof -
  from assms have nn: "0 \<le> x * real n" by simp
  then show eq: "int_trunc (x * real n) = \<lfloor>x * real n\<rfloor>" by (simp add: int_trunc_def)
  from nn show "0 \<le> int_trunc (x * real n)" unfolding eq by simp
  from assms have "x * real n < real n" by simp
  then show "int_trunc (x * real n) < int n" unfolding eq by (simp add: floor_less_iff)
qed

text \<open>
  Claim C6.  For a grid with at least one row and one column, an anchor set with as many
  anchors (at least one) as the prediction tensor has, and ground truth that holds exactly
  one box in the whole batch, with centre in \<open>[0, 1)\<close> on both axes and a class in
  \<open>[0, num_classes)\<close>, the target tensor is built without error and its objectness channel
  is 1 at exactly one (image, anchor, row, column) position, the cell
  \<open>(floor(y * gh), floor(x * gw))\<close> of the chosen anchor, and 0 at every other position.
\<close>

theorem C6_single_box_objectness:
  assumes anc: "length (anchors L) = dimA preds" "0 < dimA preds"
    and grid: "0 < dimH preds" "0 < dimW preds"
    and img: "b0 < dimB preds" "dimB preds \<le> length targets" "targets ! b0 = [gt]"
      "\<forall>b<dimB preds. b \<noteq> b0 \<longrightarrow> targets ! b = []"
    and ctr: "0 \<le> gt_x gt" "gt_x gt < 1" "0 \<le> gt_y gt" "gt_y gt < 1"
    and cls: "0 \<le> gt_cls gt" "gt_cls gt < real (num_classes L)"
  shows "\<exists>t n. forward_targets L preds targets = Inr t
           \<and> n < dimA preds
           \<and> nat \<lfloor>gt_y gt * real (dimH preds)\<rfloor> < dimH preds
           \<and> nat \<lfloor>gt_x gt * real (dimW preds)\<rfloor> < dimW preds
           \<and> (\<forall>b a j i. elems t b a j i 4 =
                 (if b = b0 \<and> a = n \<and> j = nat \<lfloor>gt_y gt * real (dimH preds)\<rfloor>
                     \<and> i = nat \<lfloor>gt_x gt * real (dimW preds)\<rfloor> then 1 else 0))"
proof -
  let ?z = "zeros (dimB preds) (dimA preds) (dimH preds) (dimW preds) (5 + num_classes L)"
  have dz: "dimB ?z = dimB preds" "dimA ?z = dimA preds" "dimH ?z = dimH preds"
    "dimW ?z = dimW preds" "dimC ?z = 5 + num_classes L"
    by (simp_all add: zeros_def)
  note gi = int_trunc_unit [OF ctr(1,2) grid(2)]
  note gj = int_trunc_unit [OF ctr(3,4) grid(1)]
  let ?box = "[gt_x gt * real (dimW ?z) - real_of_int (int_trunc (gt_x gt * real (dimW ?z))),
               gt_y gt * real (dimH ?z) - real_of_int (int_trunc (gt_y gt * real (dimH ?z))),
               gt_w gt * real (dimW ?z), gt_h gt * real (dimH ?z)]"
  from anc have "anchors L \<noteq> []" by auto
  with anc(1) obtain n where best: "best_anchor (anchors L) (dimA ?z) ?box = Inr n"
    using best_anchor_total [of "anchors L" "dimA ?z" ?box] unfolding dz by auto
  then have n: "n < dimA preds" using best_anchor_Inr [OF best] by (simp add: dz)
  have k0: "0 \<le> int_trunc (gt_cls gt)" using cls(1) by (simp add: int_trunc_def)
  have "\<lfloor>gt_cls gt\<rfloor> < int (num_classes L)" using cls(2) by (simp add: floor_less_iff)
  then have k1: "5 + int_trunc (gt_cls gt) < int (dimC ?z)"
    using cls(1) by (simp add: int_trunc_def dz)
  have k2: "nat (5 + int_trunc (gt_cls gt)) \<noteq> 4" using k0 by simp
  from assign_gt_ok [OF best, of b0] img(1) gi(1,2) gj(1,2) k0 k1
  obtain t where a: "assign_gt L b0 ?z gt = Inr t"
    and e: "\<And>b a j i. elems t b a j i 4 =
                 (if b = b0 \<and> a = n \<and> j = nat (int_trunc (gt_y gt * real (dimH preds)))
                     \<and> i = nat (int_trunc (gt_x gt * real (dimW preds))) then 1 else 0)"
    using k2 by (simp add: dz tensor_upd_elems) (simp add: zeros_def)
  have "forward_targets L preds targets = assign_image L b0 ?z (targets ! b0)"
    unfolding forward_targets_def using img(1,2,4) by (rule assign_batch_single)
  with a img(3) have "forward_targets L preds targets = Inr t" by simp
  moreover have "nat \<lfloor>gt_y gt * real (dimH preds)\<rfloor> < dimH preds"
    using gj(1,2) unfolding gj(3) by (simp add: nat_less_iff)
  moreover have "nat \<lfloor>gt_x gt * real (dimW preds)\<rfloor> < dimW preds"
    using gi(1,2) unfolding gi(3) by (simp add: nat_less_iff)
  ultimately show ?thesis using n e unfolding gi(3) gj(3) by blast
qed

section \<open>The scenario\<close>

lemma best_anchor_scenario:
  "best_anchor [(1, 1), (2, 2), (3, 3)] 3 [1/2, 1/2, 13/10, 13/10] = Inr 1"
  by code_simp

lemma scenario_targets:
  assumes L: "anchors L = [(1, 1), (2, 2), (3, 3)]" and nc: "2 < num_classes L"
    and d: "dimB preds = 1" "dimA preds = 3" "dimH preds = 13" "dimW preds = 13"
  shows "\<exists>t. forward_targets L preds [[gt_scenario]] = Inr t
           \<and> dimC t = 5 + num_classes L
           \<and> (\<forall>b a j i c. elems t b a j i c =
                (if b = 0 \<and> a = 1 \<and> j = 6 \<and> i = 6
                 then (if c = 0 \<or> c = 1 then 1/2 else if c = 2 \<or> c = 3 then 13/10
                       else if c = 4 \<or> c = 7 then 1 else 0)
                 else 0))"
proof -
  let ?z = "zeros 1 3 13 13 (5 + num_classes L)"
  have dz: "dimB ?z = 1" "dimA ?z = 3" "dimH ?z = 13" "dimW ?z = 13"
    "dimC ?z = 5 + num_classes L"
    by (simp_all add: zeros_def)
  have g: "gt_x gt_scenario = 1/2" "gt_y gt_scenario = 1/2" "gt_w gt_scenario = 1/10"
    "gt_h gt_scenario = 1/10" "gt_cls gt_scenario = 2"
    by (simp_all add: gt_scenario_def)
  have tr: "int_trunc (1/2 * real (13::nat)) = 6" "int_trunc 2 = 2"
    by (simp_all add: int_trunc_def)
  have box: "[1/2 * real (13::nat) - real_of_int 6, 1/2 * real (13::nat) - real_of_int 6,
              1/10 * real (13::nat), 1/10 * real (13::nat)] = [1/2, 1/2, 13/10, 13/10]"
    by simp
  have best: "best_anchor (anchors L) (dimA ?z)
       [gt_x gt_scenario * real (dimW ?z)
          - real_of_int (int_trunc (gt_x gt_scenario * real (dimW ?z))),
        gt_y gt_scenario * real (dimH ?z)
          - real_of_int (int_trunc (gt_y gt_scenario * real (dimH ?z))),
        gt_w gt_scenario * real (dimW ?z), gt_h gt_scenario * real (dimH ?z)] = Inr 1"
    unfolding dz g tr box L by (rule best_anchor_scenario)
  have a: "assign_gt L 0 ?z gt_scenario =
     Inr (tensor_upd (tensor_upd (tensor_upd (tensor_upd (tensor_upd (tensor_upd ?z
            0 1 6 6 4 1) 0 1 6 6 0 (1/2)) 0 1 6 6 1 (1/2)) 0 1 6 6 2 (13/10))
            0 1 6 6 3 (13/10)) 0 1 6 6 7 1)"
    using assign_gt_ok [OF best, of 0] nc
    unfolding dz g tr by simp
  have "forward_targets L preds [[gt_scenario]] = assign_gt L 0 ?z gt_scenario"
    unfolding forward_targets_def d by (simp split: sum.splits)
  with a show ?thesis
    by (simp add: tensor_upd_elems zeros_def)
qed

text \<open>
  Claim C1, as amended.  For a 13 by 13 grid, the anchors \<open>[(1,1), (2,2), (3,3)]\<close> and one
  ground-truth box with centre \<open>(0.5, 0.5)\<close>, size \<open>(0.1, 0.1)\<close> and class 2 (of at least
  three classes), the target tensor has the box in cell \<open>(6, 6)\<close> of anchor index 1, with
  offset \<open>(0.5, 0.5)\<close>, size \<open>(1.3, 1.3)\<close>, objectness 1 and a one-hot class vector with
  its 1 at class 2 (channel 7), and is 0 everywhere else.  The anchor is chosen by
  \<open>bbox_iou\<close> between the box centred at its offset within the cell, \<open>(0.5, 0.5)\<close>, with
  size \<open>(1.3, 1.3)\<close>, and each anchor as a box centred at \<open>(0, 0)\<close>.
\<close>

theorem C1_scenario_assignment:
  assumes "anchors L = [(1, 1), (2, 2), (3, 3)]" and "2 < num_classes L"
    and "dimB preds = 1" "dimA preds = 3" "dimH preds = 13" "dimW preds = 13"
  shows "best_anchor (anchors L) (dimA preds) [1/2, 1/2, 13/10, 13/10] = Inr 1
         \<and> (\<exists>t. forward_targets L preds [[gt_scenario]] = Inr t
              \<and> (\<forall>b a j i c. elems t b a j i c =
                   (if b = 0 \<and> a = 1 \<and> j = 6 \<and> i = 6
                    then (if c = 0 \<or> c = 1 then 1/2 else if c = 2 \<or> c = 3 then 13/10
                          else if c = 4 \<or> c = 7 then 1 else 0)
                    else 0)))"
  using scenario_targets [OF assms] assms(1,4) best_anchor_scenario by auto

text \<open>Witness for C1: the amended claim at the scenario with three classes.\<close>

theorem C1_scenario_assignment_witness:
  "anchors loss_scenario = [(1, 1), (2, 2), (3, 3)] \<and> 2 < num_classes loss_scenario
   \<and> dimB preds_scenario = 1 \<and> dimA preds_scenario = 3
   \<and> dimH preds_scenario = 13 \<and> dimW preds_scenario = 13
   \<and> target_at (forward_targets loss_scenario preds_scenario [[gt_scenario]]) 0 1 6 6 4 = Inr 1
   \<and> target_at (forward_targets loss_scenario preds_scenario [[gt_scenario]]) 0 1 6 6 7 = Inr 1
   \<and> target_at (forward_targets loss_scenario preds_scenario [[gt_scenario]]) 0 1 6 6 0 = Inr (1/2)"
proof -
  have h: "anchors loss_scenario = [(1, 1), (2, 2), (3, 3)]" "2 < num_classes loss_scenario"
    "dimB preds_scenario = 1" "dimA preds_scenario = 3"
    "dimH preds_scenario = 13" "dimW preds_scenario = 13"
    by (simp_all add: loss_scenario_def preds_scenario_def)
  from C1_scenario_assignment [OF h] h show ?thesis
    by (auto simp: target_at_def bindE_def)
qed

text \<open>
  Claim C1 as stated fails: the anchor chosen is not anchor 0, and the objectness of
  anchor 0 at cell \<open>(6, 6)\<close> stays 0.  The box is not centred at zero when it is compared
  with the anchors; the IoUs are about 0.186, 0.303 and 0.188.
\<close>

theorem C1_anchor_zero_counterexample:
  "best_anchor [(1, 1), (2, 2), (3, 3)] 3 [1/2, 1/2, 13/10, 13/10] \<noteq> Inr 0
   \<and> target_at (forward_targets loss_scenario preds_scenario [[gt_scenario]]) 0 0 6 6 4 = Inr 0
   \<and> target_at (forward_targets loss_scenario preds_scenario [[gt_scenario]]) 0 1 6 6 4 = Inr 1"
  by code_simp

text \<open>Witness for C6: the theorem at the scenario, whose box lies in cell \<open>(6, 6)\<close>.\<close>

theorem C6_single_box_objectness_witness:
  "length (anchors loss_scenario) = dimA preds_scenario \<and> 0 < dimA preds_scenario
   \<and> 0 < dimH preds_scenario \<and> 0 < dimW preds_scenario
   \<and> 0 < dimB preds_scenario \<and> dimB preds_scenario \<le> length [[gt_scenario]]
   \<and> [[gt_scenario]] ! 0 = [gt_scenario]
   \<and> 0 \<le> gt_x gt_scenario \<and> gt_x gt_scenario < 1
   \<and> 0 \<le> gt_y gt_scenario \<and> gt_y gt_scenario < 1
   \<and> 0 \<le> gt_cls gt_scenario \<and> gt_cls gt_scenario < real (num_classes loss_scenario)
   \<and> (\<exists>t n. forward_targets loss_scenario preds_scenario [[gt_scenario]] = Inr t
           \<and> n < 3 \<and> elems t 0 n 6 6 4 = 1 \<and> elems t 0 n 6 7 4 = 0 \<and> elems t 0 n 5 6 4 = 0
           \<and> elems t 0 (Suc n) 6 6 4 = 0 \<and> elems t 1 n 6 6 4 = 0)"
proof -
  have h: "length (anchors loss_scenario) = dimA preds_scenario" "0 < dimA preds_scenario"
    "0 < dimH preds_scenario" "0 < dimW preds_scenario"
    "0 < dimB preds_scenario" "dimB preds_scenario \<le> length [[gt_scenario]]"
    "[[gt_scenario]] ! 0 = [gt_scenario]"
    "\<forall>b<dimB preds_scenario. b \<noteq> 0 \<longrightarrow> [[gt_scenario]] ! b = []"
    "0 \<le> gt_x gt_scenario" "gt_x gt_scenario < 1"
    "0 \<le> gt_y gt_scenario" "gt_y gt_scenario < 1"
    "0 \<le> gt_cls gt_scenario" "gt_cls gt_scenario < real (num_classes loss_scenario)"
    by (simp_all add: loss_scenario_def preds_scenario_def gt_scenario_def)
  have d: "dimA preds_scenario = 3" "dimH preds_scenario = 13" "dimW preds_scenario = 13"
    by (simp_all add: preds_scenario_def)
  have f: "nat \<lfloor>gt_y gt_scenario * real (13::nat)\<rfloor> = 6"
    "nat \<lfloor>gt_x gt_scenario * real (13::nat)\<rfloor> = 6"
    by (simp_all add: gt_scenario_def)
  from C6_single_box_objectness [OF h]
  obtain t n where t: "forward_targets loss_scenario preds_scenario [[gt_scenario]] = Inr t"
    and n: "n < 3"
    and e: "\<And>b a j i. elems t b a j i 4 = (if b = 0 \<and> a = n \<and> j = 6 \<and> i = 6 then 1 else 0)"
    unfolding d f by blast
  have "elems t 0 n 6 6 4 = 1 \<and> elems t 0 n 6 7 4 = 0 \<and> elems t 0 n 5 6 4 = 0
           \<and> elems t 0 (Suc n) 6 6 4 = 0 \<and> elems t 1 n 6 6 4 = 0"
    unfolding e by simp
  with t n have "\<exists>t n. forward_targets loss_scenario preds_scenario [[gt_scenario]] = Inr t
           \<and> n < 3 \<and> elems t 0 n 6 6 4 = 1 \<and> elems t 0 n 6 7 4 = 0 \<and> elems t 0 n 5 6 4 = 0
           \<and> elems t 0 (Suc n) 6 6 4 = 0 \<and> elems t 1 n 6 6 4 = 0"
    by blast
  with h(1-7,9-14) show ?thesis by blast
qed

text \<open>
  Witness for C5: the theorem at the scenario; the prediction tensor \<open>preds_scenario\<close> equals the target
  tensor of the scenario's box, and the loss is 0.
\<close>

theorem C5_loss_zero_on_targets_witness:
  "(\<exists>t. forward_targets loss_scenario preds_scenario [[gt_scenario]] = Inr t
        \<and> dimC preds_scenario = dimC t
        \<and> elems preds_scenario 0 1 6 6 4 = elems t 0 1 6 6 4
        \<and> elems preds_scenario 0 1 6 6 2 = elems t 0 1 6 6 2
        \<and> elems preds_scenario 0 0 6 6 4 = elems t 0 0 6 6 4)
   \<and> elems preds_scenario 0 1 6 6 4 = 1
   \<and> forward loss_scenario preds_scenario [[gt_scenario]] = Inr 0"
proof -
  have h: "anchors loss_scenario = [(1, 1), (2, 2), (3, 3)]" "2 < num_classes loss_scenario"
    "dimB preds_scenario = 1" "dimA preds_scenario = 3"
    "dimH preds_scenario = 13" "dimW preds_scenario = 13"
    by (simp_all add: loss_scenario_def preds_scenario_def)
  from scenario_targets [OF h] obtain t where
    t: "forward_targets loss_scenario preds_scenario [[gt_scenario]] = Inr t"
    and c: "dimC t = 5 + num_classes loss_scenario"
    and e: "\<And>b a j i c. elems t b a j i c =
                (if b = 0 \<and> a = 1 \<and> j = 6 \<and> i = 6
                 then (if c = 0 \<or> c = 1 then 1/2 else if c = 2 \<or> c = 3 then 13/10
                       else if c = 4 \<or> c = 7 then 1 else 0)
                 else 0)"
    by blast
  have c': "dimC preds_scenario = dimC t"
    unfolding c by (simp add: loss_scenario_def preds_scenario_def)
  have lk: "[1/2, 1/2, 13/10, 13/10, 1, 0, 0, 1 :: real] ! k =
              (if k = 0 \<or> k = 1 then 1/2 else if k = 2 \<or> k = 3 then 13/10
               else if k = 4 \<or> k = 7 then 1 else 0)" if "k < 8" for k
  proof -
    from that have "k = 0 \<or> k = 1 \<or> k = 2 \<or> k = 3 \<or> k = 4 \<or> k = 5 \<or> k = 6 \<or> k = 7"
      by arith
    then show ?thesis by auto
  qed
  have eq: "\<forall>b<dimB preds_scenario. \<forall>a<dimA preds_scenario. \<forall>j<dimH preds_scenario.
            \<forall>i<dimW preds_scenario. \<forall>c<dimC preds_scenario.
               elems preds_scenario b a j i c = elems t b a j i c"
    unfolding e by (simp add: preds_scenario_def lk)
  have p: "elems preds_scenario 0 1 6 6 4 = 1" by (simp add: preds_scenario_def)
  have "elems preds_scenario 0 1 6 6 4 = elems t 0 1 6 6 4
        \<and> elems preds_scenario 0 1 6 6 2 = elems t 0 1 6 6 2
        \<and> elems preds_scenario 0 0 6 6 4 = elems t 0 0 6 6 4"
    unfolding e by (simp add: preds_scenario_def)
  with C5_loss_zero_on_targets [OF t c' eq] t c' p show ?thesis by blast
qed

text \<open>
  Claim C10.  When some ground-truth box of an image of the batch has a normalised centre
  with \<open>x = 1.0\<close> or \<open>y = 1.0\<close> (and the anchor set matches the prediction tensor), the
  call fails with an IndexError: no target tensor is built and no loss is returned.  For
  \<open>x = 1.0\<close> the cell index is \<open>gi = gw\<close>, which no Python index of a dimension of size
  \<open>gw\<close> accepts; likewise \<open>gj = gh\<close> for \<open>y = 1.0\<close>.
\<close>

theorem C10_center_on_edge_fails:
  assumes "b < dimB preds" and "b < length targets" and "gt \<in> set (targets ! b)"
    and edge: "gt_x gt = 1 \<or> gt_y gt = 1"
    and anc: "length (anchors L) = dimA preds"
  shows "forward_targets L preds targets = Inl IndexError
         \<and> forward L preds targets = Inl IndexError
         \<and> (gt_x gt = 1 \<longrightarrow> int_trunc (gt_x gt * real (dimW preds)) = int (dimW preds)
                               \<and> py_index (dimW preds) (int (dimW preds)) = None)
         \<and> (gt_y gt = 1 \<longrightarrow> int_trunc (gt_y gt * real (dimH preds)) = int (dimH preds)
                               \<and> py_index (dimH preds) (int (dimH preds)) = None)"
proof -
  let ?z = "zeros (dimB preds) (dimA preds) (dimH preds) (dimW preds) (5 + num_classes L)"
  from assms(1) have "b \<in> set [0..<dimB preds]" by simp
  from assign_batch_edge [OF this assms(3) edge] obtain e where
    e: "assign_batch L targets [0..<dimB preds] ?z = Inl e" by blast
  have "length (anchors L) = dimA ?z" using anc by (simp add: zeros_def)
  with e have "e = IndexError" by (rule assign_batch_Inl)
  with e have 1: "forward_targets L preds targets = Inl IndexError"
    by (simp add: forward_targets_def)
  then have 2: "forward L preds targets = Inl IndexError"
    by (simp add: forward_def bindE_def)
  have 3: "int_trunc (1 * real n) = int n \<and> py_index n (int n) = None" for n
    by (simp add: int_trunc_def py_index_def)
  from 1 2 3 show ?thesis by auto
qed

text \<open>Witness for C10: the theorem at the scenario with the box moved to \<open>x = 1.0\<close>.\<close>

theorem C10_center_on_edge_fails_witness:
  "(0::nat) < dimB preds_scenario \<and> (0::nat) < length [[gt_edge]] \<and> gt_edge \<in> set ([[gt_edge]] ! 0)
   \<and> (gt_x gt_edge = 1 \<or> gt_y gt_edge = 1)
   \<and> length (anchors loss_scenario) = dimA preds_scenario
   \<and> forward_targets loss_scenario preds_scenario [[gt_edge]] = Inl IndexError
   \<and> forward loss_scenario preds_scenario [[gt_edge]] = Inl IndexError
   \<and> int_trunc (gt_x gt_edge * real (dimW preds_scenario)) = 13"
proof -
  have h: "(0::nat) < dimB preds_scenario" "(0::nat) < length [[gt_edge]]"
    "gt_edge \<in> set ([[gt_edge]] ! 0)" "gt_x gt_edge = 1 \<or> gt_y gt_edge = 1"
    "length (anchors loss_scenario) = dimA preds_scenario"
    by (simp_all add: loss_scenario_def preds_scenario_def gt_edge_def)
  have x: "gt_x gt_edge = 1" "dimW preds_scenario = 13"
    by (simp_all add: gt_edge_def preds_scenario_def)
  from C10_center_on_edge_fails [OF h] x h show ?thesis by simp
qed

end
